(* ===== verification/Bridge_Prelude.thy ===== *)
theory Bridge_Prelude
  imports Main "HOL-Library.Word"
begin

text \<open>
  Shared vocabulary of the development: the error values every component
  raises, the byte and string types, and the string helpers that
  \<^verbatim>\<open>sandstorm-http-bridge.c++\<close> calls from \<^verbatim>\<open>util.h\<close> and from the KJ
  library (\<^verbatim>\<open>split\<close>, \<^verbatim>\<open>splitFirst\<close>, \<^verbatim>\<open>trim\<close>, \<^verbatim>\<open>toLower\<close>, \<^verbatim>\<open>hexEncode\<close>,
  \<^verbatim>\<open>kj::str\<close> of an integer, \<^verbatim>\<open>kj::hex\<close>, \<^verbatim>\<open>kj::strArray\<close>).  Those helpers
  are not part of the source file itself, so they are modelled from their
  documented behaviour; everything that is in the source file is modelled in
  the component theories that import this one.

  A \<^verbatim>\<open>kj::String\<close>, a \<^verbatim>\<open>kj::ArrayPtr<const char>\<close> and a byte array are all
  lists of 8-bit characters (\<^typ>\<open>string\<close>).  A C \<^verbatim>\<open>char\<close> is signed on the
  platform the program runs on (x86-64 Linux); \<open>schar\<close> reads a character
  that way and \<open>uchar\<close> as the unsigned \<^verbatim>\<open>byte\<close>.

  An exception (\<^verbatim>\<open>KJ_ASSERT\<close>, \<^verbatim>\<open>KJ_REQUIRE\<close>, \<^verbatim>\<open>KJ_FAIL_ASSERT\<close>,
  \<^verbatim>\<open>KJ_FAIL_REQUIRE\<close>) is a value of type \<open>error\<close>, one constructor per
  raise site, and a fallible operation returns \<open>error + 'a\<close>.
\<close>

section \<open>Collections of facts\<close>

named_theorems str_simps "rewrite rules of the string helpers"
named_theorems res_simps "rewrite rules of the result type"

section \<open>Errors and results\<close>

datatype error =
    ParseFailed
  | IncompleteHeaders
  | StatusBelow100 nat
  | OutOfBounds
  | BadParserOffset
  | BodyNotEmpty
  | UnexpectedUpgrade
  | UnsupportedStatus nat string
  | MissingLocation nat
  | InvalidETag string
  | InvalidCookie string
  | InvalidDate string
  | InvalidMaxAge string
  | NoWebSocket nat
  | RemainderNotEmpty
  | GetResponseTwice
  | WriteAfterDone
  | DoneTwice
  | ReceivedTooMuch
  | DoneTooEarly
  | MissingTerminator
  | InvalidDestination string
  | BadBaseUrl string
  | BadIdentityId
  | SessionNotFound string
  | UnsupportedSessionType
  | MissingAnnotation string
  | SyscallFailed string
  | BadWaitStatus nat

type_synonym 'a result = "error + 'a"
type_synonym bytes = string

definition rbind :: "'a result \<Rightarrow> ('a \<Rightarrow> 'b result) \<Rightarrow> 'b result" where
  "rbind r f = (case r of Inl e \<Rightarrow> Inl e | Inr x \<Rightarrow> f x)"

definition require :: "bool \<Rightarrow> error \<Rightarrow> unit result" where
  "require b e = (if b then Inr () else Inl e)"

fun isOk :: "'a result \<Rightarrow> bool" where
  "isOk (Inr _) = True"
| "isOk (Inl _) = False"

section \<open>Characters\<close>

abbreviation CR :: char where "CR \<equiv> CHR 0x0D"
abbreviation LF :: char where "LF \<equiv> CHR 0x0A"
abbreviation CRLF :: string where "CRLF \<equiv> [CR, LF]"
abbreviation NUL :: char where "NUL \<equiv> CHR 0x00"

definition uchar :: "char \<Rightarrow> nat" where
  "uchar c = of_char c"

definition schar :: "char \<Rightarrow> int" where
  "schar c = (if uchar c < 128 then int (uchar c) else int (uchar c) - 256)"

definition isspace :: "char \<Rightarrow> bool" where
  "isspace c = (uchar c = 32 \<or> (9 \<le> uchar c \<and> uchar c \<le> 13))"

definition isdigit :: "char \<Rightarrow> bool" where
  "isdigit c = (48 \<le> uchar c \<and> uchar c \<le> 57)"

definition isUpper :: "char \<Rightarrow> bool" where
  "isUpper c = (65 \<le> uchar c \<and> uchar c \<le> 90)"

definition isLower :: "char \<Rightarrow> bool" where
  "isLower c = (97 \<le> uchar c \<and> uchar c \<le> 122)"

definition toLowerChar :: "char \<Rightarrow> char" where
  "toLowerChar c = (if isUpper c then char_of (uchar c - 65 + 97) else c)"

definition digitVal :: "char \<Rightarrow> nat" where
  "digitVal c = uchar c - 48"

definition HEX_DIGITS :: string where
  "HEX_DIGITS = ''0123456789abcdef''"

definition hexDigit :: "nat \<Rightarrow> char" where
  "hexDigit n = HEX_DIGITS ! (n mod 16)"

definition decDigit :: "nat \<Rightarrow> char" where
  "decDigit n = ''0123456789'' ! (n mod 10)"

section \<open>Strings\<close>

definition toLower :: "string \<Rightarrow> string" where
  "toLower s = map toLowerChar s"

definition trimArray :: "string \<Rightarrow> string" where
  "trimArray s = rev (dropWhile isspace (rev (dropWhile isspace s)))"

definition trim :: "string \<Rightarrow> string" where
  "trim s = trimArray s"

fun split :: "string \<Rightarrow> char \<Rightarrow> string list" where
  "split [] d = [[]]"
| "split (c # cs) d =
     (if c = d then [] # split cs d
      else (case split cs d of [] \<Rightarrow> [[c]] | p # ps \<Rightarrow> (c # p) # ps))"

definition splitFirst :: "string \<Rightarrow> char \<Rightarrow> (string \<times> string) option" where
  "splitFirst s d =
     (if d \<in> set s
      then Some (takeWhile (\<lambda>c. c \<noteq> d) s, tl (dropWhile (\<lambda>c. c \<noteq> d) s))
      else None)"

definition startsWith :: "string \<Rightarrow> string \<Rightarrow> bool" where
  "startsWith s p = (take (length p) s = p)"

definition endsWith :: "string \<Rightarrow> string \<Rightarrow> bool" where
  "endsWith s p = (length p \<le> length s \<and> drop (length s - length p) s = p)"

fun strArray :: "string list \<Rightarrow> string \<Rightarrow> string" where
  "strArray [] d = []"
| "strArray [x] d = x"
| "strArray (x # y # ys) d = x @ d @ strArray (y # ys) d"

fun strNat :: "nat \<Rightarrow> string" where
  "strNat n = (if n < 10 then [decDigit n] else strNat (n div 10) @ [decDigit n])"

fun hexNat :: "nat \<Rightarrow> string" where
  "hexNat n = (if n < 16 then [hexDigit n] else hexNat (n div 16) @ [hexDigit n])"

definition strInt :: "int \<Rightarrow> string" where
  "strInt i = (if i < 0 then CHR ''-'' # strNat (nat (- i)) else strNat (nat i))"

definition hexByte :: "char \<Rightarrow> string" where
  "hexByte c = [hexDigit (uchar c div 16), hexDigit (uchar c mod 16)]"

definition hexEncode :: "bytes \<Rightarrow> string" where
  "hexEncode bs = concat (map hexByte bs)"

definition cStr :: "string \<Rightarrow> string" where
  "cStr s = takeWhile (\<lambda>c. c \<noteq> NUL) s"

declare strNat.simps [simp del] hexNat.simps [simp del]

section \<open>Results\<close>

lemma rbind_Inl [simp, res_simps]: "rbind (Inl e) f = Inl e"
  by (simp add: rbind_def)

lemma rbind_Inr [simp, res_simps]: "rbind (Inr x) f = f x"
  by (simp add: rbind_def)

lemma rbind_eq_Inr_iff [res_simps]:
  "rbind r f = Inr y \<longleftrightarrow> (\<exists>x. r = Inr x \<and> f x = Inr y)"
  by (cases r) simp_all

lemma rbind_eq_Inl_iff [res_simps]:
  "rbind r f = Inl e \<longleftrightarrow> r = Inl e \<or> (\<exists>x. r = Inr x \<and> f x = Inl e)"
  by (cases r) simp_all

lemma require_simps [simp, res_simps]:
  "require True e = Inr ()" "require False e = Inl e"
  by (simp_all add: require_def)

lemma require_eq_Inr_iff [simp, res_simps]: "require b e = Inr u \<longleftrightarrow> b"
  by (simp add: require_def)

lemma require_eq_Inl_iff [simp, res_simps]: "require b e = Inl e' \<longleftrightarrow> \<not> b \<and> e' = e"
  by (auto simp: require_def)

lemma isOk_iff: "isOk r \<longleftrightarrow> (\<exists>x. r = Inr x)"
  by (cases r) simp_all

section \<open>Characters: bounds and case folding\<close>

lemma uchar_less_256 [simp]: "uchar c < 256"
proof -
  have "of_char c = (of_char c :: nat) mod 256"
    by (metis of_char_of char_of_char)
  then show ?thesis
    unfolding uchar_def by (metis mod_less_divisor zero_less_numeral)
qed

lemma uchar_inject [simp]: "uchar c = uchar d \<longleftrightarrow> c = d"
  unfolding uchar_def by (metis char_of_char)

lemma char_of_uchar [simp]: "char_of (uchar c) = c"
  by (simp add: uchar_def)

lemma uchar_char_of [simp]: "uchar (char_of (n::nat)) = n mod 256"
  by (simp add: uchar_def)

lemma schar_bounds: "- 128 \<le> schar c \<and> schar c < 128"
  using uchar_less_256 [of c] by (simp add: schar_def del: uchar_less_256)

lemma schar_nonneg_iff: "0 \<le> schar c \<longleftrightarrow> uchar c < 128"
  using uchar_less_256 [of c] by (simp add: schar_def del: uchar_less_256)

lemma uchar_toLowerChar:
  "uchar (toLowerChar c) = (if isUpper c then uchar c + 32 else uchar c)"
  by (simp add: toLowerChar_def isUpper_def)

lemma not_isUpper_toLowerChar [simp]: "\<not> isUpper (toLowerChar c)"
  by (simp add: isUpper_def uchar_toLowerChar)

lemma toLowerChar_idem [simp]: "toLowerChar (toLowerChar c) = toLowerChar c"
  using not_isUpper_toLowerChar [of c] by (simp add: toLowerChar_def [of "toLowerChar c"])

lemma toLowerChar_not_upper [simp]: "\<not> isUpper c \<Longrightarrow> toLowerChar c = c"
  by (simp add: toLowerChar_def)

text \<open>
  Case folding of a character given by its bits, for evaluating the string
  helpers on literals with the simplifier (\<open>char_eval\<close>).
\<close>

lemma toLowerChar_Char:
  "toLowerChar (Char b0 b1 b2 b3 b4 b5 b6 b7) =
     (if isUpper (Char b0 b1 b2 b3 b4 b5 b6 b7) then Char b0 b1 b2 b3 b4 True b6 b7
      else Char b0 b1 b2 b3 b4 b5 b6 b7)"
  by (cases b0; cases b1; cases b2; cases b3; cases b4; cases b5; cases b6; cases b7;
      simp add: toLowerChar_def isUpper_def uchar_def char_of_def bit_Suc_0_iff)

lemmas char_eval = isspace_def isdigit_def isUpper_def isLower_def digitVal_def uchar_def
  toLowerChar_Char

lemma toLower_idem [simp, str_simps]: "toLower (toLower s) = toLower s"
  by (simp add: toLower_def)

lemma length_toLower [simp, str_simps]: "length (toLower s) = length s"
  by (simp add: toLower_def)

lemma toLower_append [simp, str_simps]: "toLower (s @ t) = toLower s @ toLower t"
  by (simp add: toLower_def)

lemma toLower_Nil [simp]: "toLower [] = []"
  by (simp add: toLower_def)

lemma toLower_Cons [simp]: "toLower (c # s) = toLowerChar c # toLower s"
  by (simp add: toLower_def)

lemma toLower_fixed: "list_all (\<lambda>c. \<not> isUpper c) s \<Longrightarrow> toLower s = s"
  by (induction s) simp_all

section \<open>Trimming\<close>

lemma trimArray_Nil [simp]: "trimArray [] = []"
  by (simp add: trimArray_def)

lemma trimArray_no_space:
  assumes "s \<noteq> []" "\<not> isspace (hd s)" "\<not> isspace (last s)"
  shows "trimArray s = s"
proof -
  from assms have "dropWhile isspace s = s"
    by (cases s) simp_all
  moreover from assms have "dropWhile isspace (rev s) = rev s"
    by (cases "rev s") (simp_all add: last_rev [symmetric] hd_rev)
  ultimately show ?thesis by (simp add: trimArray_def)
qed

lemma dropWhile_hd_id: "xs \<noteq> [] \<Longrightarrow> \<not> P (hd xs) \<Longrightarrow> dropWhile P xs = xs"
  by (cases xs) simp_all

lemma hd_rev_dropWhile_rev:
  assumes "rev (dropWhile P (rev t)) \<noteq> []"
  shows "hd (rev (dropWhile P (rev t))) = hd t"
proof -
  have "rev t = takeWhile P (rev t) @ dropWhile P (rev t)" by simp
  then have "t = rev (dropWhile P (rev t)) @ rev (takeWhile P (rev t))"
    by (metis rev_append rev_rev_ident)
  with assms show ?thesis by (metis hd_append2)
qed

lemma dropWhile_rev_dropWhile_idem:
  "dropWhile P (rev (dropWhile P (rev (dropWhile P s)))) = rev (dropWhile P (rev (dropWhile P s)))"
proof (cases "rev (dropWhile P (rev (dropWhile P s))) = []")
  case True
  show ?thesis by (simp only: True dropWhile.simps)
next
  case False
  then have "dropWhile P s \<noteq> []" by (metis dropWhile.simps(1) rev.simps(1))
  then have "\<not> P (hd (dropWhile P s))" by (rule hd_dropWhile)
  with False show ?thesis
    by (simp add: dropWhile_hd_id hd_rev_dropWhile_rev)
qed

lemma trimArray_space [simp]: "trimArray (CHR '' '' # s) = trimArray s"
  by (simp add: trimArray_def isspace_def uchar_def)

lemma trim_space [simp]: "trim (CHR '' '' # s) = trim s"
  by (simp add: trim_def)

lemma trimArray_idem [simp, str_simps]: "trimArray (trimArray s) = trimArray s"
  by (simp add: trimArray_def dropWhile_rev_dropWhile_idem dropWhile_idem)

lemma trim_idem [simp, str_simps]: "trim (trim s) = trim s"
  by (simp add: trim_def)

lemma length_trimArray [simp]: "length (trimArray s) \<le> length s"
proof -
  have "length (dropWhile isspace (rev (dropWhile isspace s))) \<le> length (dropWhile isspace s)"
    by (metis length_dropWhile_le length_rev)
  also have "\<dots> \<le> length s" by (rule length_dropWhile_le)
  finally show ?thesis by (simp add: trimArray_def)
qed

section \<open>Splitting and joining\<close>

lemma split_not_Nil [simp]: "split s d \<noteq> []"
  by (induction s) (auto split: list.splits)

lemma split_no_delim: "d \<notin> set s \<Longrightarrow> split s d = [s]"
  by (induction s) auto

lemma split_append_delim:
  "d \<notin> set s \<Longrightarrow> split (s @ d # t) d = s # split t d"
  by (induction s) auto

lemma length_split: "length (split s d) = Suc (count_list s d)"
  by (induction s) (auto split: list.splits)

lemma split_parts_no_delim: "p \<in> set (split s d) \<Longrightarrow> d \<notin> set p"
proof (induction s arbitrary: p)
  case Nil
  then show ?case by simp
next
  case (Cons c cs)
  obtain q qs where q: "split cs d = q # qs"
    by (cases "split cs d") simp_all
  with Cons show ?case
    by (cases "c = d") (auto split: if_splits)
qed

lemma strArray_split [simp, str_simps]: "strArray (split s d) [d] = s"
proof (induction s)
  case Nil
  then show ?case by simp
next
  case (Cons c cs)
  obtain q qs where q: "split cs d = q # qs"
    by (cases "split cs d") simp_all
  with Cons show ?case
    by (cases qs) auto
qed

lemma split_strArray:
  "ps \<noteq> [] \<Longrightarrow> \<forall>p \<in> set ps. d \<notin> set p \<Longrightarrow> split (strArray ps [d]) d = ps"
proof (induction ps "[d]" rule: strArray.induct)
  case 1
  then show ?case by simp
next
  case (2 x)
  then show ?case by (simp add: split_no_delim)
next
  case (3 x y ys)
  then show ?case using split_append_delim [of d x] by simp
qed

lemma strArray_snoc:
  "ls \<noteq> [] \<Longrightarrow> strArray (ls @ [x]) d = strArray ls d @ d @ x"
  by (induction ls d rule: strArray.induct) auto

lemma strArray_Cons: "ls \<noteq> [] \<Longrightarrow> strArray (x # ls) d = x @ d @ strArray ls d"
  by (cases ls) simp_all

lemma strArray_append:
  "ls \<noteq> [] \<Longrightarrow> ms \<noteq> [] \<Longrightarrow> strArray (ls @ ms) d = strArray ls d @ d @ strArray ms d"
proof (induction ls)
  case Nil
  then show ?case by simp
next
  case (Cons x ls)
  then show ?case
    by (cases "ls = []") (simp_all add: strArray_Cons)
qed

lemma takeWhile_until [simp]:
  "d \<notin> set a \<Longrightarrow> takeWhile (\<lambda>c. c \<noteq> d) (a @ d # b) = a"
  by (induction a) auto

lemma dropWhile_until [simp]:
  "d \<notin> set a \<Longrightarrow> dropWhile (\<lambda>c. c \<noteq> d) (a @ d # b) = d # b"
  by (induction a) auto

lemma splitFirst_None_iff [simp]: "splitFirst s d = None \<longleftrightarrow> d \<notin> set s"
  by (simp add: splitFirst_def)

lemma splitFirst_None [simp]: "d \<notin> set s \<Longrightarrow> splitFirst s d = None"
  by (simp add: splitFirst_def)

lemma splitFirst_Some:
  "splitFirst s d = Some (a, b) \<longleftrightarrow> s = a @ d # b \<and> d \<notin> set a"
proof
  assume "splitFirst s d = Some (a, b)"
  then have d: "d \<in> set s" and a: "a = takeWhile (\<lambda>c. c \<noteq> d) s"
    and b: "b = tl (dropWhile (\<lambda>c. c \<noteq> d) s)"
    by (auto simp: splitFirst_def split: if_splits)
  from d have "dropWhile (\<lambda>c. c \<noteq> d) s \<noteq> []" by simp
  moreover from this have "hd (dropWhile (\<lambda>c. c \<noteq> d) s) = d"
    using hd_dropWhile [of "\<lambda>c. c \<noteq> d" s] by simp
  ultimately have "dropWhile (\<lambda>c. c \<noteq> d) s = d # b"
    using b by (metis list.collapse)
  then have "s = a @ d # b"
    using a by (metis takeWhile_dropWhile_id)
  moreover have "d \<notin> set a"
    using a by (metis (mono_tags, lifting) set_takeWhileD)
  ultimately show "s = a @ d # b \<and> d \<notin> set a" by simp
next
  assume "s = a @ d # b \<and> d \<notin> set a"
  then show "splitFirst s d = Some (a, b)"
    by (simp add: splitFirst_def)
qed

lemma splitFirst_append [simp]:
  "d \<notin> set a \<Longrightarrow> splitFirst (a @ d # b) d = Some (a, b)"
  by (simp add: splitFirst_Some)

lemma find_append:
  "find P (xs @ ys) = (case find P xs of Some x \<Rightarrow> Some x | None \<Rightarrow> find P ys)"
  by (induction xs) simp_all

section \<open>Prefixes and suffixes\<close>

lemma startsWith_append [simp]: "startsWith (p @ s) p"
  by (simp add: startsWith_def)

lemma endsWith_append [simp]: "endsWith (s @ p) p"
  by (simp add: endsWith_def)

lemma endsWith_iff: "endsWith s p \<longleftrightarrow> (\<exists>t. s = t @ p)"
proof
  assume "endsWith s p"
  then have "s = take (length s - length p) s @ p"
    by (metis append_take_drop_id endsWith_def)
  then show "\<exists>t. s = t @ p" ..
next
  assume "\<exists>t. s = t @ p"
  then show "endsWith s p" by auto
qed

lemma startsWith_iff: "startsWith s p \<longleftrightarrow> (\<exists>t. s = p @ t)"
  unfolding startsWith_def by (metis append_eq_conv_conj)

section \<open>Numbers as text\<close>

lemma nat_less_10_cases:
  "(k::nat) < 10 \<Longrightarrow> k = 0 \<or> k = 1 \<or> k = 2 \<or> k = 3 \<or> k = 4 \<or> k = 5 \<or> k = 6 \<or> k = 7 \<or> k = 8 \<or> k = 9"
  by arith

lemma nat_less_16_cases:
  "(k::nat) < 16 \<Longrightarrow> k = 0 \<or> k = 1 \<or> k = 2 \<or> k = 3 \<or> k = 4 \<or> k = 5 \<or> k = 6 \<or> k = 7 \<or> k = 8
     \<or> k = 9 \<or> k = 10 \<or> k = 11 \<or> k = 12 \<or> k = 13 \<or> k = 14 \<or> k = 15"
  by arith

lemma uchar_decDigit [simp]: "uchar (decDigit n) = 48 + n mod 10"
  using nat_less_10_cases [of "n mod 10"]
  by (auto simp: decDigit_def uchar_def)

lemma decDigit_isdigit [simp]: "isdigit (decDigit n)"
  by (simp add: isdigit_def)

lemma digitVal_decDigit [simp]: "digitVal (decDigit n) = n mod 10"
  by (simp add: digitVal_def)

lemma uchar_hexDigit:
  "uchar (hexDigit n) = (if n mod 16 < 10 then 48 + n mod 16 else 87 + n mod 16)"
  using nat_less_16_cases [of "n mod 16"]
  by (auto simp: hexDigit_def HEX_DIGITS_def uchar_def)

lemma strNat_not_Nil [simp]: "strNat n \<noteq> []"
  by (subst strNat.simps) simp

lemma strNat_digits: "list_all isdigit (strNat n)"
proof (induction n rule: strNat.induct)
  case (1 n)
  then show ?case
    by (subst strNat.simps) simp
qed

lemma strNat_numeral [simp]:
  "strNat (numeral k) =
     (if numeral k < (10::nat) then [decDigit (numeral k)]
      else strNat (numeral k div 10) @ [decDigit (numeral k)])"
  by (subst strNat.simps) simp

lemma strNat_0 [simp]: "strNat 0 = ''0''"
  by (subst strNat.simps) (simp add: decDigit_def)

lemma strNat_1 [simp]: "strNat (Suc 0) = ''1''"
  by (subst strNat.simps) (simp add: decDigit_def)

lemma strNat_length_1: "length (strNat n) = 1 \<longleftrightarrow> n < 10"
proof (cases "n < 10")
  case True
  then show ?thesis by (subst strNat.simps) simp
next
  case False
  then have "strNat n = strNat (n div 10) @ [decDigit n]" by (subst strNat.simps) simp
  with False show ?thesis using strNat_not_Nil [of "n div 10"] by (cases "strNat (n div 10)") auto
qed

lemma decDigit_inj: "decDigit n = decDigit m \<Longrightarrow> n mod 10 = m mod 10"
  using uchar_decDigit [of n] uchar_decDigit [of m] by simp

lemma strNat_inj: "strNat n = strNat m \<Longrightarrow> n = m"
proof (induction n arbitrary: m rule: strNat.induct)
  case (1 n)
  show ?case
  proof (cases "n < 10")
    case True
    with strNat_length_1 [of n] "1.prems" strNat_length_1 [of m] have m: "m < 10" by simp
    with True "1.prems" have "decDigit n = decDigit m" by (subst (asm) (1 2) strNat.simps) simp
    from decDigit_inj [OF this] True m show ?thesis by simp
  next
    case False
    with strNat_length_1 [of n] "1.prems" strNat_length_1 [of m] have m: "\<not> m < 10" by simp
    with False "1.prems" have "strNat (n div 10) = strNat (m div 10)" "decDigit n = decDigit m"
      by (subst (asm) (1 2) strNat.simps, simp)+
    with "1.IH" [OF False, of "m div 10"] decDigit_inj [of n m] have "n div 10 = m div 10" "n mod 10 = m mod 10"
      by simp_all
    then show ?thesis by (metis div_mult_mod_eq)
  qed
qed

lemma strNat_eq_0 [simp]: "strNat n = ''0'' \<longleftrightarrow> n = 0"
  using strNat_inj [of n 0] by auto

lemma decDigit_numeral [simp]: "decDigit (numeral k) = ''0123456789'' ! (numeral k mod 10)"
  by (simp add: decDigit_def)

lemma hexNat_numeral [simp]:
  "hexNat (numeral k) =
     (if numeral k < (16::nat) then [hexDigit (numeral k)]
      else hexNat (numeral k div 16) @ [hexDigit (numeral k)])"
  by (subst hexNat.simps) simp

lemma hexNat_0 [simp]: "hexNat 0 = ''0''"
  by (subst hexNat.simps) (simp add: hexDigit_def HEX_DIGITS_def)

lemma hexDigit_numeral [simp]: "hexDigit (numeral k) = ''0123456789abcdef'' ! (numeral k mod 16)"
  by (simp add: hexDigit_def HEX_DIGITS_def)

lemma hexNat_not_Nil [simp]: "hexNat n \<noteq> []"
  by (subst hexNat.simps) simp

lemma length_hexByte [simp]: "length (hexByte c) = 2"
  by (simp add: hexByte_def)

lemma length_hexEncode [simp, str_simps]: "length (hexEncode bs) = 2 * length bs"
  by (induction bs) (simp_all add: hexEncode_def)

lemma hexEncode_append [simp]: "hexEncode (a @ b) = hexEncode a @ hexEncode b"
  by (simp add: hexEncode_def)

lemma cStr_no_NUL [simp]: "NUL \<notin> set s \<Longrightarrow> cStr s = s"
  by (auto simp: cStr_def)

section \<open>Words\<close>

lemma unat_add_of_nat:
  fixes a :: "'a::len word"
  assumes "unat a + k < 2 ^ LENGTH('a)"
  shows "unat (a + of_nat k) = unat a + k"
proof -
  from assms have "k < 2 ^ LENGTH('a)" by simp
  then have k: "unat (of_nat k :: 'a word) = k" by (simp add: unat_of_nat)
  with assms have "unat a + unat (of_nat k :: 'a word) < 2 ^ LENGTH('a)" by simp
  then show ?thesis using k by (simp add: unat_add_lem [THEN iffD1])
qed

lemma unat_of_nat_small:
  "k < 2 ^ LENGTH('a) \<Longrightarrow> unat (of_nat k :: 'a::len word) = k"
  by (simp add: unat_of_nat)

end
