(* ===== verification/Status_Table.thy ===== *)
theory Status_Table
  imports Bridge_Prelude
begin

text \<open>
  The table of HTTP status codes (\<^verbatim>\<open>HttpStatusInfo\<close>, \<^verbatim>\<open>noContentInfo\<close>,
  \<^verbatim>\<open>redirectInfo\<close>, \<^verbatim>\<open>preconditionFailedInfo\<close>, \<^verbatim>\<open>getHttpStatusAnnotation\<close>,
  \<^verbatim>\<open>makeStatusCodes\<close>, lines 84-160 of \<^verbatim>\<open>sandstorm-http-bridge.c++\<close>) and the
  look-up with its fall-backs that \<^verbatim>\<open>HttpParser::build\<close> performs on it (lines
  226-239).

  The table is built at start-up from the compiled schema: the enumerants of
  \<^verbatim>\<open>SuccessCode\<close> and of \<^verbatim>\<open>ClientErrorCode\<close>, each annotated with its HTTP
  number, then the fixed entries written after them.  The schema is not part
  of the source file, so it is a parameter (\<open>Schema\<close>) of the model: the
  theorems hold for every schema, and \<open>exampleSchema\<close> is only the input of
  the witnesses.  A \<^verbatim>\<open>std::unordered_map\<close> that is only written with
  \<^verbatim>\<open>operator[]\<close> and read with \<^verbatim>\<open>find\<close> is a partial function.
\<close>

section \<open>Data\<close>

datatype ResponseWhich =
  CONTENT | NO_CONTENT | PRECONDITION_FAILED | REDIRECT | CLIENT_ERROR | SERVER_ERROR

datatype HttpStatusInfo =
    ContentInfo nat
  | NoContentInfo bool
  | RedirectInfo bool bool
  | PreconditionFailedInfo
  | ClientErrorInfo nat
  | ServerErrorInfo

fun statusType :: "HttpStatusInfo \<Rightarrow> ResponseWhich" where
  "statusType (ContentInfo _) = CONTENT"
| "statusType (NoContentInfo _) = NO_CONTENT"
| "statusType (RedirectInfo _ _) = REDIRECT"
| "statusType PreconditionFailedInfo = PRECONDITION_FAILED"
| "statusType (ClientErrorInfo _) = CLIENT_ERROR"
| "statusType ServerErrorInfo = SERVER_ERROR"

record HttpStatusDescriptor =
  statusId :: nat
  statusTitle :: string

record Enumerant =
  enumerantName :: string
  enumerantOrdinal :: nat
  enumerantAnnotations :: "(nat \<times> HttpStatusDescriptor) list"

record Schema =
  HTTP_STATUS_ANNOTATION_ID :: nat
  successCodeEnumerants :: "Enumerant list"
  clientErrorCodeEnumerants :: "Enumerant list"

type_synonym StatusCodes = "nat \<rightharpoonup> HttpStatusInfo"

definition BAD_REQUEST :: nat where
  "BAD_REQUEST = 0"

section \<open>Building the table\<close>

definition noContentInfo :: "bool \<Rightarrow> HttpStatusInfo" where
  "noContentInfo shouldResetForm = NoContentInfo shouldResetForm"

definition redirectInfo :: "bool \<Rightarrow> bool \<Rightarrow> HttpStatusInfo" where
  "redirectInfo isPermanent switchToGet = RedirectInfo isPermanent switchToGet"

definition preconditionFailedInfo :: HttpStatusInfo where
  "preconditionFailedInfo = PreconditionFailedInfo"

definition getHttpStatusAnnotation :: "nat \<Rightarrow> Enumerant \<Rightarrow> HttpStatusDescriptor result" where
  "getHttpStatusAnnotation annId e =
     (case find (\<lambda>a. fst a = annId) (enumerantAnnotations e) of
        Some a \<Rightarrow> Inr (snd a)
      | None \<Rightarrow> Inl (MissingAnnotation (enumerantName e)))"

fun addEnumerants ::
  "nat \<Rightarrow> (nat \<Rightarrow> HttpStatusInfo) \<Rightarrow> Enumerant list \<Rightarrow> StatusCodes \<Rightarrow> StatusCodes result" where
  "addEnumerants annId mk [] m = Inr m"
| "addEnumerants annId mk (e # es) m =
     (case getHttpStatusAnnotation annId e of
        Inl err \<Rightarrow> Inl err
      | Inr d \<Rightarrow> addEnumerants annId mk es (m(statusId d \<mapsto> mk (enumerantOrdinal e))))"

definition fixedCodes :: "StatusCodes \<Rightarrow> StatusCodes" where
  "fixedCodes m = m
     (204 \<mapsto> noContentInfo False,
      205 \<mapsto> noContentInfo True,
      304 \<mapsto> preconditionFailedInfo,
      301 \<mapsto> redirectInfo True True,
      302 \<mapsto> redirectInfo False True,
      303 \<mapsto> redirectInfo False True,
      307 \<mapsto> redirectInfo False False,
      308 \<mapsto> redirectInfo True False,
      412 \<mapsto> preconditionFailedInfo)"

definition makeStatusCodes :: "Schema \<Rightarrow> StatusCodes result" where
  "makeStatusCodes sch =
     rbind (addEnumerants (HTTP_STATUS_ANNOTATION_ID sch) ContentInfo
              (successCodeEnumerants sch) Map.empty)
       (\<lambda>m. rbind (addEnumerants (HTTP_STATUS_ANNOTATION_ID sch) ClientErrorInfo
                      (clientErrorCodeEnumerants sch) m)
          (\<lambda>m. Inr (fixedCodes m)))"

section \<open>Looking a status up\<close>

definition statusInfoFor :: "StatusCodes \<Rightarrow> nat \<Rightarrow> string \<Rightarrow> HttpStatusInfo result" where
  "statusInfoFor codes status_code statusString =
     (case codes status_code of
        Some info \<Rightarrow> Inr info
      | None \<Rightarrow>
          if status_code div 100 = 4 then Inr (ClientErrorInfo BAD_REQUEST)
          else if status_code div 100 = 5 then Inr ServerErrorInfo
          else Inl (UnsupportedStatus status_code statusString))"

section \<open>The table a schema stands for\<close>

text \<open>
  The abstract table: what \<open>makeStatusCodes\<close> promises, stated without the
  order of the writes.  A fixed code has its fixed entry; any other code is a
  client error if an enumerant of \<^verbatim>\<open>ClientErrorCode\<close> carries it (the last one
  that does), else a success if an enumerant of \<^verbatim>\<open>SuccessCode\<close> carries it.
\<close>

definition fixedInfo :: "nat \<Rightarrow> HttpStatusInfo option" where
  "fixedInfo c =
     (if c = 204 then Some (NoContentInfo False)
      else if c = 205 then Some (NoContentInfo True)
      else if c = 304 \<or> c = 412 then Some PreconditionFailedInfo
      else if c = 301 then Some (RedirectInfo True True)
      else if c = 302 \<or> c = 303 then Some (RedirectInfo False True)
      else if c = 307 then Some (RedirectInfo False False)
      else if c = 308 then Some (RedirectInfo True False)
      else None)"

definition annotatedId :: "nat \<Rightarrow> Enumerant \<Rightarrow> nat option" where
  "annotatedId annId e = map_option (statusId \<circ> snd) (find (\<lambda>a. fst a = annId) (enumerantAnnotations e))"

definition lastWithId :: "nat \<Rightarrow> Enumerant list \<Rightarrow> nat \<Rightarrow> nat option" where
  "lastWithId annId es c =
     map_option enumerantOrdinal (find (\<lambda>e. annotatedId annId e = Some c) (rev es))"

definition wellAnnotated :: "Schema \<Rightarrow> bool" where
  "wellAnnotated sch =
     list_all (\<lambda>e. annotatedId (HTTP_STATUS_ANNOTATION_ID sch) e \<noteq> None)
       (successCodeEnumerants sch @ clientErrorCodeEnumerants sch)"

definition tableOf :: "Schema \<Rightarrow> StatusCodes" where
  "tableOf sch c =
     (case fixedInfo c of
        Some i \<Rightarrow> Some i
      | None \<Rightarrow>
         (case lastWithId (HTTP_STATUS_ANNOTATION_ID sch) (clientErrorCodeEnumerants sch) c of
            Some k \<Rightarrow> Some (ClientErrorInfo k)
          | None \<Rightarrow>
             map_option ContentInfo
               (lastWithId (HTTP_STATUS_ANNOTATION_ID sch) (successCodeEnumerants sch) c)))"

text \<open>The input of the witnesses: a schema in the shape of the program's.\<close>

definition enumerantOf :: "string \<Rightarrow> nat \<Rightarrow> nat \<Rightarrow> Enumerant" where
  "enumerantOf n k c =
     \<lparr>enumerantName = n, enumerantOrdinal = k,
      enumerantAnnotations = [(7, \<lparr>statusId = c, statusTitle = n\<rparr>)]\<rparr>"

definition exampleSchema :: Schema where
  "exampleSchema =
     \<lparr>HTTP_STATUS_ANNOTATION_ID = 7,
      successCodeEnumerants =
        [enumerantOf ''ok'' 0 200, enumerantOf ''created'' 1 201,
         enumerantOf ''accepted'' 2 202, enumerantOf ''noContent'' 3 204],
      clientErrorCodeEnumerants =
        [enumerantOf ''badRequest'' 0 400, enumerantOf ''forbidden'' 1 403,
         enumerantOf ''notFound'' 2 404, enumerantOf ''preconditionFailed'' 3 412]\<rparr>"

section \<open>Lemmas on the construction\<close>

lemma getHttpStatusAnnotation_Inr_iff:
  "getHttpStatusAnnotation annId e = Inr d \<longleftrightarrow>
     (\<exists>a. find (\<lambda>a. fst a = annId) (enumerantAnnotations e) = Some a \<and> d = snd a)"
  by (auto simp: getHttpStatusAnnotation_def split: option.splits)

lemma getHttpStatusAnnotation_annotatedId:
  "getHttpStatusAnnotation annId e = Inr d \<Longrightarrow> annotatedId annId e = Some (statusId d)"
  by (auto simp: getHttpStatusAnnotation_Inr_iff annotatedId_def)

lemma annotatedId_getHttpStatusAnnotation:
  "annotatedId annId e \<noteq> None \<Longrightarrow> \<exists>d. getHttpStatusAnnotation annId e = Inr d"
  by (auto simp: getHttpStatusAnnotation_def annotatedId_def split: option.splits)

lemma annotatedId_None_fails:
  "annotatedId annId e = None \<Longrightarrow>
     getHttpStatusAnnotation annId e = Inl (MissingAnnotation (enumerantName e))"
  by (auto simp: getHttpStatusAnnotation_def annotatedId_def split: option.splits)

lemma lastWithId_Nil [simp]: "lastWithId annId [] c = None"
  by (simp add: lastWithId_def)

lemma lastWithId_snoc:
  "lastWithId annId (es @ [e]) c =
     (if annotatedId annId e = Some c then Some (enumerantOrdinal e) else lastWithId annId es c)"
  by (simp add: lastWithId_def)

lemma lastWithId_Cons:
  "lastWithId annId (e # es) c =
     (case lastWithId annId es c of
        Some k \<Rightarrow> Some k
      | None \<Rightarrow> if annotatedId annId e = Some c then Some (enumerantOrdinal e) else None)"
  by (simp add: lastWithId_def find_append split: option.splits)

text \<open>
  The loop over the enumerants, from any table: a code that some enumerant
  carries gets the entry of the last such enumerant, any other code keeps
  what the table held.
\<close>

lemma addEnumerants_Inr:
  "addEnumerants annId mk es m = Inr m' \<Longrightarrow>
     m' c = (case lastWithId annId es c of Some k \<Rightarrow> Some (mk k) | None \<Rightarrow> m c)"
proof (induction es arbitrary: m)
  case Nil
  then show ?case by simp
next
  case (Cons e es)
  from Cons.prems obtain d where d: "getHttpStatusAnnotation annId e = Inr d"
    and rest: "addEnumerants annId mk es (m(statusId d \<mapsto> mk (enumerantOrdinal e))) = Inr m'"
    by (auto split: sum.splits)
  from d have "annotatedId annId e = Some (statusId d)"
    by (rule getHttpStatusAnnotation_annotatedId)
  with Cons.IH [OF rest] show ?case
    by (auto simp: lastWithId_Cons split: option.splits)
qed

lemma addEnumerants_total:
  "list_all (\<lambda>e. annotatedId annId e \<noteq> None) es \<Longrightarrow> \<exists>m'. addEnumerants annId mk es m = Inr m'"
proof (induction es arbitrary: m)
  case Nil
  then show ?case by simp
next
  case (Cons e es)
  then obtain d where "getHttpStatusAnnotation annId e = Inr d"
    using annotatedId_getHttpStatusAnnotation [of annId e] by auto
  with Cons show ?case by simp
qed

lemma addEnumerants_Inr_annotated:
  "addEnumerants annId mk es m = Inr m' \<Longrightarrow> list_all (\<lambda>e. annotatedId annId e \<noteq> None) es"
proof (induction es arbitrary: m)
  case Nil
  then show ?case by simp
next
  case (Cons e es)
  from Cons.prems obtain d where d: "getHttpStatusAnnotation annId e = Inr d"
    and rest: "addEnumerants annId mk es (m(statusId d \<mapsto> mk (enumerantOrdinal e))) = Inr m'"
    by (auto split: sum.splits)
  from d Cons.IH [OF rest] show ?case
    by (simp add: getHttpStatusAnnotation_annotatedId)
qed

lemma addEnumerants_fails:
  "addEnumerants annId mk es m = Inl err \<Longrightarrow>
     \<exists>e \<in> set es. annotatedId annId e = None \<and> err = MissingAnnotation (enumerantName e)"
proof (induction es arbitrary: m)
  case Nil
  then show ?case by simp
next
  case (Cons e es)
  show ?case
  proof (cases "getHttpStatusAnnotation annId e")
    case (Inl err')
    with Cons.prems have "err' = err" by simp
    with Inl show ?thesis
      by (auto simp: getHttpStatusAnnotation_def annotatedId_def split: option.splits)
  next
    case (Inr d)
    with Cons show ?thesis by auto
  qed
qed

lemma fixedCodes_apply: "fixedCodes m c = (case fixedInfo c of Some i \<Rightarrow> Some i | None \<Rightarrow> m c)"
  by (simp add: fixedCodes_def fixedInfo_def noContentInfo_def redirectInfo_def
      preconditionFailedInfo_def)

lemma makeStatusCodes_Inr_apply:
  assumes "makeStatusCodes sch = Inr m"
  shows "m c = tableOf sch c"
proof -
  let ?a = "HTTP_STATUS_ANNOTATION_ID sch"
  from assms obtain m1 m2 where
    m1: "addEnumerants ?a ContentInfo (successCodeEnumerants sch) Map.empty = Inr m1" and
    m2: "addEnumerants ?a ClientErrorInfo (clientErrorCodeEnumerants sch) m1 = Inr m2" and
    m: "m = fixedCodes m2"
    by (auto simp: makeStatusCodes_def rbind_eq_Inr_iff)
  show ?thesis
    unfolding m fixedCodes_apply tableOf_def
    by (simp add: addEnumerants_Inr [OF m1] addEnumerants_Inr [OF m2] split: option.splits)
qed

lemma makeStatusCodes_total:
  assumes "wellAnnotated sch"
  shows "\<exists>m. makeStatusCodes sch = Inr m"
proof -
  let ?a = "HTTP_STATUS_ANNOTATION_ID sch"
  from assms have s: "list_all (\<lambda>e. annotatedId ?a e \<noteq> None) (successCodeEnumerants sch)"
    and c: "list_all (\<lambda>e. annotatedId ?a e \<noteq> None) (clientErrorCodeEnumerants sch)"
    by (simp_all add: wellAnnotated_def)
  from addEnumerants_total [OF s] obtain m1 where
    m1: "addEnumerants ?a ContentInfo (successCodeEnumerants sch) Map.empty = Inr m1" by blast
  from addEnumerants_total [OF c] obtain m2 where
    "addEnumerants ?a ClientErrorInfo (clientErrorCodeEnumerants sch) m1 = Inr m2" by blast
  with m1 show ?thesis by (simp add: makeStatusCodes_def)
qed

lemma makeStatusCodes_Inr_wellAnnotated:
  assumes "makeStatusCodes sch = Inr m"
  shows "wellAnnotated sch"
proof -
  let ?a = "HTTP_STATUS_ANNOTATION_ID sch"
  from assms obtain m1 m2 where
    "addEnumerants ?a ContentInfo (successCodeEnumerants sch) Map.empty = Inr m1"
    "addEnumerants ?a ClientErrorInfo (clientErrorCodeEnumerants sch) m1 = Inr m2"
    by (auto simp: makeStatusCodes_def rbind_eq_Inr_iff)
  then show ?thesis
    by (auto simp: wellAnnotated_def dest: addEnumerants_Inr_annotated)
qed

lemma makeStatusCodes_Inl:
  assumes "makeStatusCodes sch = Inl err"
  shows "\<not> wellAnnotated sch"
proof -
  let ?a = "HTTP_STATUS_ANNOTATION_ID sch"
  from assms consider
    "addEnumerants ?a ContentInfo (successCodeEnumerants sch) Map.empty = Inl err"
    | m1 where "addEnumerants ?a ClientErrorInfo (clientErrorCodeEnumerants sch) m1 = Inl err"
    by (auto simp: makeStatusCodes_def rbind_eq_Inl_iff)
  then show ?thesis
    by cases (auto dest!: addEnumerants_fails simp: wellAnnotated_def list_all_iff)
qed

lemma exampleSchema_wellAnnotated: "wellAnnotated exampleSchema"
  by (simp add: wellAnnotated_def exampleSchema_def enumerantOf_def annotatedId_def)

lemma makeStatusCodes_exampleSchema: "\<exists>m. makeStatusCodes exampleSchema = Inr m"
  by (rule makeStatusCodes_total [OF exampleSchema_wellAnnotated])

lemma tableOf_exampleSchema:
  "tableOf exampleSchema 200 = Some (ContentInfo 0)"
  "tableOf exampleSchema 204 = Some (NoContentInfo False)"
  "tableOf exampleSchema 404 = Some (ClientErrorInfo 2)"
  "tableOf exampleSchema 412 = Some PreconditionFailedInfo"
  "tableOf exampleSchema 418 = None"
  "tableOf exampleSchema 500 = None"
  "tableOf exampleSchema 100 = None"
  by (simp_all add: tableOf_def fixedInfo_def lastWithId_def exampleSchema_def enumerantOf_def
      annotatedId_def)

section \<open>Properties\<close>

text \<open>
  C1.  Whenever the table can be built, it is the table the schema stands
  for: each fixed code (204, 205, 301, 302, 303, 304, 307, 308, 412) has its
  fixed entry whatever the schema says about it, every other code carried by a
  client-error enumerant is that client error, every other code carried by a
  success enumerant is that success, and no other code is in the table.
\<close>

theorem makeStatusCodes_table:
  "makeStatusCodes sch = Inr m \<Longrightarrow> m = tableOf sch"
  by (rule ext) (rule makeStatusCodes_Inr_apply)

theorem makeStatusCodes_table_witness:
  "\<exists>m. makeStatusCodes exampleSchema = Inr m \<and> m = tableOf exampleSchema
      \<and> m 204 = Some (NoContentInfo False) \<and> m 412 = Some PreconditionFailedInfo
      \<and> m 200 = Some (ContentInfo 0) \<and> m 418 = None"
proof -
  from makeStatusCodes_exampleSchema obtain m where m: "makeStatusCodes exampleSchema = Inr m" ..
  from makeStatusCodes_table [OF m] have "m = tableOf exampleSchema" .
  with m show ?thesis by (simp add: tableOf_exampleSchema)
qed

text \<open>
  C11.  Building the table fails exactly when an enumerant of the schema lacks
  its HTTP status annotation; with every enumerant annotated it succeeds.
\<close>

theorem makeStatusCodes_succeeds_iff:
  "(\<exists>m. makeStatusCodes sch = Inr m) \<longleftrightarrow> wellAnnotated sch"
proof
  assume "\<exists>m. makeStatusCodes sch = Inr m"
  then show "wellAnnotated sch"
    by (auto dest: makeStatusCodes_Inr_wellAnnotated)
next
  assume "wellAnnotated sch"
  then show "\<exists>m. makeStatusCodes sch = Inr m" by (rule makeStatusCodes_total)
qed

theorem makeStatusCodes_succeeds_iff_witness:
  "(\<exists>m. makeStatusCodes exampleSchema = Inr m) \<and> wellAnnotated exampleSchema
   \<and> \<not> (\<exists>m. makeStatusCodes (exampleSchema\<lparr>HTTP_STATUS_ANNOTATION_ID := 8\<rparr>) = Inr m)"
proof -
  have "\<not> wellAnnotated (exampleSchema\<lparr>HTTP_STATUS_ANNOTATION_ID := 8\<rparr>)"
    by (simp add: wellAnnotated_def exampleSchema_def enumerantOf_def annotatedId_def)
  then show ?thesis
    using makeStatusCodes_succeeds_iff [of exampleSchema]
      makeStatusCodes_succeeds_iff [of "exampleSchema\<lparr>HTTP_STATUS_ANNOTATION_ID := 8\<rparr>"]
      exampleSchema_wellAnnotated
    by simp
qed

text \<open>
  The look-up of a status code, on every branch: a code of the table
  gets its entry; a code outside it is the client error \<^verbatim>\<open>BAD_REQUEST\<close> when it
  is a 4xx, a server error when it is a 5xx, and otherwise the call fails with
  the unsupported-status error, which carries the code and the status text.
\<close>

theorem statusInfoFor_cases:
  "statusInfoFor codes c txt =
     (if c \<in> dom codes then Inr (the (codes c))
      else if 400 \<le> c \<and> c < 500 then Inr (ClientErrorInfo BAD_REQUEST)
      else if 500 \<le> c \<and> c < 600 then Inr ServerErrorInfo
      else Inl (UnsupportedStatus c txt))"
proof -
  have "c div 100 = 4 \<longleftrightarrow> 400 \<le> c \<and> c < 500" by arith
  moreover have "c div 100 = 5 \<longleftrightarrow> 500 \<le> c \<and> c < 600" by arith
  ultimately show ?thesis
    by (auto simp: statusInfoFor_def split: option.splits)
qed

theorem statusInfoFor_cases_witness:
  "statusInfoFor (tableOf exampleSchema) 404 ''Not Found'' = Inr (ClientErrorInfo 2)
   \<and> statusInfoFor (tableOf exampleSchema) 418 ''teapot'' = Inr (ClientErrorInfo BAD_REQUEST)
   \<and> statusInfoFor (tableOf exampleSchema) 500 ''oops!'' = Inr ServerErrorInfo
   \<and> statusInfoFor (tableOf exampleSchema) 100 ''Continue'' = Inl (UnsupportedStatus 100 ''Continue'')"
  using statusInfoFor_cases [of "tableOf exampleSchema" 404 "''Not Found''"]
    statusInfoFor_cases [of "tableOf exampleSchema" 418 "''teapot''"]
    statusInfoFor_cases [of "tableOf exampleSchema" 500 "''oops!''"]
    statusInfoFor_cases [of "tableOf exampleSchema" 100 "''Continue''"]
  by (simp add: tableOf_exampleSchema dom_def)

end
