(* ===== verification/Encoding.thy ===== *)
theory Encoding
  imports Bridge_Prelude
begin

text \<open>
  \<^verbatim>\<open>percentEncode\<close> (lines 60-75) and \<^verbatim>\<open>toBytes\<close> (lines 77-82) of
  \<^verbatim>\<open>sandstorm-http-bridge.c++\<close>.  \<^verbatim>\<open>percentEncode\<close> produces the value of the
  \<^verbatim>\<open>X-Sandstorm-Username\<close> request header from the user's display name, which
  the user chooses freely, so what matters is that no byte of the name can
  end the header line, and that the application can recover the name.  The
  decoders \<open>percentDecode\<close> and \<open>hexDecode\<close> are not in the program: they
  are the reference inverses the round-trip lemmas are stated against.
\<close>

section \<open>Definitions\<close>

definition isUnreserved :: "char \<Rightarrow> bool" where
  "isUnreserved c =
     (isUpper c \<or> isLower c \<or> isdigit c \<or>
      c = CHR ''-'' \<or> c = CHR ''_'' \<or> c = CHR ''.'' \<or> c = CHR ''~'')"

definition percentEncodeChar :: "char \<Rightarrow> string" where
  "percentEncodeChar c =
     (if isUnreserved c then [c]
      else [CHR ''%'', HEX_DIGITS ! (uchar c div 16), HEX_DIGITS ! (uchar c mod 16)])"

definition percentEncode :: "string \<Rightarrow> string" where
  "percentEncode txt = concat (map percentEncodeChar txt)"

definition toBytes :: "string \<Rightarrow> bytes \<Rightarrow> bytes" where
  "toBytes txt dat = txt @ dat"

text \<open>The reference decoders.\<close>

definition hexVal :: "char \<Rightarrow> nat option" where
  "hexVal c =
     (if isdigit c then Some (uchar c - 48)
      else if 97 \<le> uchar c \<and> uchar c \<le> 102 then Some (uchar c - 87)
      else None)"

fun percentDecode :: "string \<Rightarrow> string option" where
  "percentDecode [] = Some []"
| "percentDecode (c # cs) =
     (if c = CHR ''%'' then
        (case cs of
           h # l # r \<Rightarrow>
             (case (hexVal h, hexVal l) of
                (Some a, Some b) \<Rightarrow> map_option ((#) (char_of (16 * a + b))) (percentDecode r)
              | _ \<Rightarrow> None)
         | _ \<Rightarrow> None)
      else map_option ((#) c) (percentDecode cs))"

fun hexDecode :: "string \<Rightarrow> bytes option" where
  "hexDecode [] = Some []"
| "hexDecode [h] = None"
| "hexDecode (h # l # r) =
     (case (hexVal h, hexVal l) of
        (Some a, Some b) \<Rightarrow> map_option ((#) (char_of (16 * a + b))) (hexDecode r)
      | _ \<Rightarrow> None)"

definition isHexDigit :: "char \<Rightarrow> bool" where
  "isHexDigit c = (isdigit c \<or> (97 \<le> uchar c \<and> uchar c \<le> 102))"

definition headerSafe :: "char \<Rightarrow> bool" where
  "headerSafe c = (isUnreserved c \<or> c = CHR ''%'')"

section \<open>Hexadecimal digits\<close>

lemma hexVal_hexDigit [simp]: "hexVal (hexDigit n) = Some (n mod 16)"
  by (auto simp: hexVal_def isdigit_def uchar_hexDigit)

lemma hexVal_HEX_DIGITS [simp]: "n < 16 \<Longrightarrow> hexVal (HEX_DIGITS ! n) = Some n"
  using hexVal_hexDigit [of n] by (simp add: hexDigit_def)

lemma isHexDigit_hexDigit [simp]: "isHexDigit (hexDigit n)"
  by (auto simp: isHexDigit_def isdigit_def uchar_hexDigit)

lemma isHexDigit_HEX_DIGITS [simp]: "n < 16 \<Longrightarrow> isHexDigit (HEX_DIGITS ! n)"
  using isHexDigit_hexDigit [of n] by (simp add: hexDigit_def)

lemma isHexDigit_unreserved: "isHexDigit c \<Longrightarrow> isUnreserved c"
  by (auto simp: isHexDigit_def isUnreserved_def isLower_def)

lemma char_of_nibbles [simp]: "char_of (16 * (uchar c div 16) + uchar c mod 16) = c"
  by simp

lemma uchar_div_16_less [simp]: "uchar c div 16 < 16"
  using uchar_less_256 [of c] by (simp del: uchar_less_256)

section \<open>Percent encoding\<close>

lemma percent_not_unreserved [simp]: "\<not> isUnreserved (CHR ''%'')"
  by (simp add: isUnreserved_def isUpper_def isLower_def isdigit_def uchar_def)

lemma percentEncode_Nil [simp]: "percentEncode [] = []"
  by (simp add: percentEncode_def)

lemma percentEncode_Cons [simp]:
  "percentEncode (c # cs) = percentEncodeChar c @ percentEncode cs"
  by (simp add: percentEncode_def)

lemma percentEncode_append [simp]:
  "percentEncode (s @ t) = percentEncode s @ percentEncode t"
  by (simp add: percentEncode_def)

lemma percentDecode_encoded_char:
  "percentDecode (percentEncodeChar c @ r) = map_option ((#) c) (percentDecode r)"
proof (cases "isUnreserved c")
  case True
  then have "c \<noteq> CHR ''%''" by auto
  with True show ?thesis by (simp add: percentEncodeChar_def)
next
  case False
  then show ?thesis by (simp add: percentEncodeChar_def)
qed

lemma percentDecode_percentEncode: "percentDecode (percentEncode s) = Some s"
  by (induction s) (simp_all add: percentDecode_encoded_char)

lemma headerSafe_percentEncodeChar: "list_all headerSafe (percentEncodeChar c)"
  by (simp add: percentEncodeChar_def headerSafe_def isHexDigit_unreserved)

lemma headerSafe_percentEncode: "list_all headerSafe (percentEncode s)"
  by (induction s) (simp_all add: headerSafe_percentEncodeChar)

lemma headerSafe_not_control:
  "headerSafe c \<Longrightarrow> c \<noteq> CR \<and> c \<noteq> LF \<and> c \<noteq> NUL \<and> \<not> isspace c \<and> c \<noteq> CHR '':'' \<and> c \<noteq> CHR '',''"
  by (auto simp: headerSafe_def isUnreserved_def isUpper_def isLower_def isdigit_def
      isspace_def uchar_def)

lemma length_percentEncodeChar: "length (percentEncodeChar c) = (if isUnreserved c then 1 else 3)"
  by (simp add: percentEncodeChar_def)

lemma length_percentEncode:
  "length (percentEncode s) = length s + 2 * length (filter (\<lambda>c. \<not> isUnreserved c) s)"
  by (induction s) (simp_all add: length_percentEncodeChar)

lemma percentEncode_unreserved: "list_all isUnreserved s \<Longrightarrow> percentEncode s = s"
  by (induction s) (simp_all add: percentEncodeChar_def)

section \<open>Hexadecimal encoding\<close>

lemma hexDecode_hexByte: "hexDecode (hexByte c @ r) = map_option ((#) c) (hexDecode r)"
  by (simp add: hexByte_def)

lemma hexDecode_hexEncode: "hexDecode (hexEncode bs) = Some bs"
  by (induction bs) (simp_all add: hexEncode_def hexDecode_hexByte)

lemma hexEncode_inj: "hexEncode a = hexEncode b \<Longrightarrow> a = b"
  by (metis hexDecode_hexEncode option.inject)

lemma isHexDigit_hexEncode: "list_all isHexDigit (hexEncode bs)"
  by (induction bs) (simp_all add: hexEncode_def hexByte_def)

lemma toBytes_Nil [simp]: "toBytes s [] = s"
  by (simp add: toBytes_def)

lemma length_toBytes [simp]: "length (toBytes s d) = length s + length d"
  by (simp add: toBytes_def)

section \<open>Properties\<close>

text \<open>
  C38.  Percent encoding can be undone: decoding the encoded display name
  gives the name back, whatever bytes the name holds.  In particular two
  different names never get the same header value.
\<close>

theorem percentEncode_roundtrip:
  "percentDecode (percentEncode s) = Some s \<and> (percentEncode s = percentEncode t \<longrightarrow> s = t)"
  by (metis percentDecode_percentEncode option.inject)

theorem percentEncode_roundtrip_witness:
  "percentEncode ''Al ice%\<newline>'' = ''Al%20ice%25%0a''
   \<and> percentDecode (percentEncode ''Al ice%\<newline>'') = Some ''Al ice%\<newline>''"
proof -
  have "percentEncode ''Al ice%\<newline>'' = ''Al%20ice%25%0a''"
    by (simp add: percentEncodeChar_def isUnreserved_def isUpper_def isLower_def isdigit_def
        uchar_def HEX_DIGITS_def)
  then show ?thesis
    using percentEncode_roundtrip [of "''Al ice%\<newline>''" "''x''"] by simp
qed

text \<open>
  The encoded name is safe inside a header line: every character of the
  output is a letter, a digit, one of \<^verbatim>\<open>-_.~\<close> or the percent sign, so it holds
  no carriage return, line feed, NUL, white space, colon or comma; and the
  output is never shorter than the input nor longer than three times it.
\<close>

theorem percentEncode_header_safe:
  "list_all headerSafe (percentEncode s)
   \<and> list_all (\<lambda>c. c \<noteq> CR \<and> c \<noteq> LF \<and> c \<noteq> NUL \<and> \<not> isspace c) (percentEncode s)
   \<and> length s \<le> length (percentEncode s) \<and> length (percentEncode s) \<le> 3 * length s"
proof -
  have "length (filter (\<lambda>c. \<not> isUnreserved c) s) \<le> length s" by simp
  then have "length (percentEncode s) \<le> 3 * length s"
    by (simp add: length_percentEncode)
  moreover have "list_all (\<lambda>c. c \<noteq> CR \<and> c \<noteq> LF \<and> c \<noteq> NUL \<and> \<not> isspace c) (percentEncode s)"
    using headerSafe_percentEncode [of s] headerSafe_not_control
    by (auto simp: list_all_iff)
  ultimately show ?thesis
    by (simp add: headerSafe_percentEncode length_percentEncode)
qed

end
