(* ===== verification/ETag.thy ===== *)
theory ETag
  imports Bridge_Prelude
begin

text \<open>
  Entity tags.  \<^verbatim>\<open>HttpParser::parseETag\<close> (lines 645-672) reads the \<^verbatim>\<open>ETag\<close>
  header of a response into a value and a weakness flag; the request builder
  writes tags back into \<^verbatim>\<open>If-Match\<close> and \<^verbatim>\<open>If-None-Match\<close> headers (lines
  1276-1295, \<open>renderETag\<close> and \<open>renderETags\<close>).  The parser strips
  backslash escapes; the writer adds none.  \<open>escapeETag\<close> is the escaping a
  writer would need, and is the reference the parser is checked against.
\<close>

section \<open>Definitions\<close>

abbreviation DQUOTE :: char where "DQUOTE \<equiv> CHR 0x22"
abbreviation BACKSLASH :: char where "BACKSLASH \<equiv> CHR 0x5C"

record ETag =
  etagValue :: string
  etagWeak :: bool

fun unescapeETag :: "string \<Rightarrow> bool \<Rightarrow> string \<Rightarrow> string result" where
  "unescapeETag inp escaped [] = Inr []"
| "unescapeETag inp escaped (c # cs) =
     (if escaped then rbind (unescapeETag inp False cs) (\<lambda>r. Inr (c # r))
      else if c = DQUOTE then Inl (InvalidETag inp)
      else if c = BACKSLASH then unescapeETag inp True cs
      else rbind (unescapeETag inp False cs) (\<lambda>r. Inr (c # r)))"

definition parseETag :: "string \<Rightarrow> ETag result" where
  "parseETag input0 =
     (let trimmed = trim input0;
          weak = startsWith trimmed ''W/'';
          inp = (if weak then drop 2 trimmed else trimmed)
      in if startsWith inp [DQUOTE] \<and> endsWith inp [DQUOTE] \<and> length inp > 1
         then rbind (unescapeETag inp False (take (length inp - 2) (drop 1 inp)))
                (\<lambda>v. Inr \<lparr>etagValue = v, etagWeak = weak\<rparr>)
         else Inl (InvalidETag inp))"

definition renderETag :: "ETag \<Rightarrow> string" where
  "renderETag e =
     (if etagWeak e then ''W/'' @ [DQUOTE] @ etagValue e @ [DQUOTE]
      else [DQUOTE] @ etagValue e @ [DQUOTE])"

definition renderETags :: "ETag list \<Rightarrow> string" where
  "renderETags es = strArray (map renderETag es) '', ''"

text \<open>The reference writer, which escapes.\<close>

definition escapeETag :: "string \<Rightarrow> string" where
  "escapeETag v = concat (map (\<lambda>c. if c = DQUOTE \<or> c = BACKSLASH then [BACKSLASH, c] else [c]) v)"

definition renderEscaped :: "ETag \<Rightarrow> string" where
  "renderEscaped e =
     (if etagWeak e then ''W/'' else '''') @ [DQUOTE] @ escapeETag (etagValue e) @ [DQUOTE]"

definition plainETag :: "string \<Rightarrow> bool" where
  "plainETag v = list_all (\<lambda>c. c \<noteq> DQUOTE \<and> c \<noteq> BACKSLASH) v"

section \<open>The unescaping loop\<close>

lemma unescapeETag_plain:
  "plainETag v \<Longrightarrow> unescapeETag inp False v = Inr v"
  by (induction v) (simp_all add: plainETag_def)

lemma unescapeETag_escapeETag: "unescapeETag inp False (escapeETag v) = Inr v"
  by (induction v) (simp_all add: escapeETag_def)

lemma unescapeETag_error:
  "unescapeETag inp esc v = Inl e \<Longrightarrow> e = InvalidETag inp"
  by (induction inp esc v rule: unescapeETag.induct)
    (auto simp: rbind_eq_Inl_iff split: if_splits)

lemma unescapeETag_length:
  "unescapeETag inp esc v = Inr r \<Longrightarrow> length r \<le> length v"
proof (induction inp esc v arbitrary: r rule: unescapeETag.induct)
  case (1 inp escaped)
  then show ?case by simp
next
  case (2 inp escaped c cs)
  then show ?case
    by (fastforce simp: rbind_eq_Inr_iff split: if_splits)
qed

lemma unescapeETag_unescaped_quote:
  "DQUOTE \<notin> set v \<Longrightarrow> \<exists>r. unescapeETag inp esc v = Inr r"
proof (induction v arbitrary: esc)
  case Nil
  then show ?case by simp
next
  case (Cons c cs)
  then have "\<And>esc'. \<exists>r. unescapeETag inp esc' cs = Inr r" by simp
  then obtain r1 r2 where "unescapeETag inp False cs = Inr r1" "unescapeETag inp True cs = Inr r2"
    by metis
  with Cons.prems show ?case by auto
qed

section \<open>Parsing a quoted string\<close>

lemma trim_quoted [simp]: "trim (DQUOTE # v @ [DQUOTE]) = DQUOTE # v @ [DQUOTE]"
  unfolding trim_def
  by (rule trimArray_no_space) (simp_all add: isspace_def uchar_def)

lemma trim_weak_quoted [simp]:
  "trim (CHR ''W'' # CHR ''/'' # DQUOTE # v @ [DQUOTE]) = CHR ''W'' # CHR ''/'' # DQUOTE # v @ [DQUOTE]"
  unfolding trim_def
  by (rule trimArray_no_space) (simp_all add: isspace_def uchar_def)

lemma endsWith_quoted [simp]: "endsWith (DQUOTE # v @ [DQUOTE]) [DQUOTE]"
  using endsWith_append [of "DQUOTE # v" "[DQUOTE]"] by simp

lemma parseETag_quoted:
  "parseETag (DQUOTE # v @ [DQUOTE]) =
     rbind (unescapeETag (DQUOTE # v @ [DQUOTE]) False v) (\<lambda>r. Inr \<lparr>etagValue = r, etagWeak = False\<rparr>)"
  by (simp add: parseETag_def startsWith_def Let_def)

lemma parseETag_weak_quoted:
  "parseETag (CHR ''W'' # CHR ''/'' # DQUOTE # v @ [DQUOTE]) =
     rbind (unescapeETag (DQUOTE # v @ [DQUOTE]) False v) (\<lambda>r. Inr \<lparr>etagValue = r, etagWeak = True\<rparr>)"
  by (simp add: parseETag_def startsWith_def Let_def)

lemma parseETag_renderEscaped: "parseETag (renderEscaped e) = Inr e"
  by (cases "etagWeak e")
    (simp_all add: renderEscaped_def parseETag_quoted parseETag_weak_quoted unescapeETag_escapeETag)

lemma parseETag_renderETag_plain:
  "plainETag (etagValue e) \<Longrightarrow> parseETag (renderETag e) = Inr e"
  by (cases "etagWeak e")
    (simp_all add: renderETag_def parseETag_quoted parseETag_weak_quoted unescapeETag_plain)

lemma parseETag_error: "parseETag s = Inl err \<Longrightarrow> \<exists>inp. err = InvalidETag inp"
  by (auto simp: parseETag_def Let_def rbind_eq_Inl_iff dest: unescapeETag_error split: if_splits)

lemma parseETag_length:
  assumes "parseETag s = Inr e"
  shows "length (etagValue e) + 2 \<le> length s"
proof -
  define t where "t = trim s"
  define inp where "inp = (if startsWith t ''W/'' then drop 2 t else t)"
  from assms obtain v where len: "length inp > 1"
    and v: "unescapeETag inp False (take (length inp - 2) (drop 1 inp)) = Inr v"
    and e: "etagValue e = v"
    by (auto simp: parseETag_def Let_def t_def inp_def rbind_eq_Inr_iff split: if_splits)
  from unescapeETag_length [OF v] len have "length v + 2 \<le> length inp" by simp
  also have "length inp \<le> length t" by (simp add: inp_def)
  also have "length t \<le> length s" by (simp add: t_def trim_def)
  finally show ?thesis by (simp add: e)
qed

section \<open>Properties\<close>

text \<open>
  The parser accepts every properly written tag and recovers it: for any
  value and either strength, parsing the tag written with double quotes and
  backslashes escaped returns that value and that strength.
\<close>

theorem parseETag_roundtrip:
  "parseETag (renderEscaped \<lparr>etagValue = v, etagWeak = w\<rparr>) = Inr \<lparr>etagValue = v, etagWeak = w\<rparr>"
  by (rule parseETag_renderEscaped)

text \<open>
  C36.  What the request builder writes for a precondition reads back as the
  same tag when the value holds neither a double quote nor a backslash; a tag
  the parser accepted from the application can hold both, and then the header
  the builder writes is not the tag any more: for the value \<^verbatim>\<open>a"b\<close> it is
  refused by the parser itself.
\<close>

theorem renderETag_roundtrip:
  "(plainETag (etagValue e) \<longrightarrow> parseETag (renderETag e) = Inr e)
   \<and> parseETag (renderEscaped \<lparr>etagValue = [CHR ''a'', DQUOTE, CHR ''b''], etagWeak = False\<rparr>)
       = Inr \<lparr>etagValue = [CHR ''a'', DQUOTE, CHR ''b''], etagWeak = False\<rparr>
   \<and> (\<exists>x. parseETag (renderETag \<lparr>etagValue = [CHR ''a'', DQUOTE, CHR ''b''], etagWeak = False\<rparr>)
       = Inl (InvalidETag x))"
proof -
  have "\<exists>x. parseETag (renderETag \<lparr>etagValue = [CHR ''a'', DQUOTE, CHR ''b''], etagWeak = False\<rparr>)
       = Inl (InvalidETag x)"
    using parseETag_quoted [of "[CHR ''a'', DQUOTE, CHR ''b'']"]
    by (simp add: renderETag_def)
  then show ?thesis
    by (simp add: parseETag_renderETag_plain parseETag_renderEscaped)
qed

theorem renderETag_roundtrip_witness:
  "plainETag ''v1'' \<and> parseETag (renderETag \<lparr>etagValue = ''v1'', etagWeak = True\<rparr>)
      = Inr \<lparr>etagValue = ''v1'', etagWeak = True\<rparr>
   \<and> renderETag \<lparr>etagValue = ''v1'', etagWeak = True\<rparr> = ''W/'' @ [DQUOTE] @ ''v1'' @ [DQUOTE]"
  using renderETag_roundtrip [of "\<lparr>etagValue = ''v1'', etagWeak = True\<rparr>"]
  by (simp add: plainETag_def renderETag_def)

text \<open>
  A tag that is not accepted fails the call with the invalid-ETag error
  and nothing else; an accepted tag leaves out at least the two quotes, so
  its value is at least two characters shorter than the header.
\<close>

theorem parseETag_result:
  "(case parseETag s of
      Inl err \<Rightarrow> \<exists>inp. err = InvalidETag inp
    | Inr e \<Rightarrow> length (etagValue e) + 2 \<le> length s)"
  by (auto split: sum.splits dest: parseETag_error parseETag_length)

end
