(* ===== verification/Http_Date.thy ===== *)
theory Http_Date
  imports Bridge_Prelude
begin

text \<open>
  The C library calls behind the cookie attributes \<^verbatim>\<open>expires\<close> and \<^verbatim>\<open>max-age\<close>
  (\<^verbatim>\<open>HttpParser::addHeader\<close>, lines 528-558): \<^verbatim>\<open>strptime\<close> with the five date
  formats the source tries in turn, \<^verbatim>\<open>timegm\<close>, and \<^verbatim>\<open>strtoull\<close>.  The library
  is not part of the source file; it is modelled from its documented
  behaviour in the C locale, restricted to the conversions the five formats
  use (\<^verbatim>\<open>%a %b %d %Y %y %T\<close>, white space and literal characters):

  \<^item> a white-space character of the format matches any run of white space
    in the input, also an empty one; any other character matches itself;
  \<^item> a number conversion skips white space, then reads decimal digits up to
    its width, stopping early when another digit would pass the upper bound;
  \<^item> a name conversion matches the full or the abbreviated English name
    without regard to case, the full name first;
  \<^item> \<^verbatim>\<open>%y\<close> maps 69-99 to 1969-1999 and 0-68 to 2000-2068.

  \<open>parseHttpDate\<close> is the cascade of the source (lines 531-551) with its
  final check that the whole text was consumed.
\<close>

section \<open>Broken-down time\<close>

record tm =
  tm_sec :: int
  tm_min :: int
  tm_hour :: int
  tm_mday :: int
  tm_mon :: int
  tm_year :: int
  tm_wday :: int

definition tm_zero :: tm where
  "tm_zero = \<lparr>tm_sec = 0, tm_min = 0, tm_hour = 0, tm_mday = 0, tm_mon = 0, tm_year = 0, tm_wday = 0\<rparr>"

definition weekdayNames :: "(string \<times> string) list" where
  "weekdayNames =
     [(''Sunday'', ''Sun''), (''Monday'', ''Mon''), (''Tuesday'', ''Tue''),
      (''Wednesday'', ''Wed''), (''Thursday'', ''Thu''), (''Friday'', ''Fri''),
      (''Saturday'', ''Sat'')]"

definition monthNames :: "(string \<times> string) list" where
  "monthNames =
     [(''January'', ''Jan''), (''February'', ''Feb''), (''March'', ''Mar''),
      (''April'', ''Apr''), (''May'', ''May''), (''June'', ''Jun''),
      (''July'', ''Jul''), (''August'', ''Aug''), (''September'', ''Sep''),
      (''October'', ''Oct''), (''November'', ''Nov''), (''December'', ''Dec'')]"

section \<open>strptime\<close>

definition matchString :: "string \<Rightarrow> string \<Rightarrow> string option" where
  "matchString nm rp =
     (if length nm \<le> length rp \<and> toLower (take (length nm) rp) = toLower nm
      then Some (drop (length nm) rp) else None)"

fun matchName :: "(string \<times> string) list \<Rightarrow> nat \<Rightarrow> string \<Rightarrow> (nat \<times> string) option" where
  "matchName [] k rp = None"
| "matchName ((full, abbr) # ns) k rp =
     (case matchString full rp of
        Some r \<Rightarrow> Some (k, r)
      | None \<Rightarrow>
         (case matchString abbr rp of
            Some r \<Rightarrow> Some (k, r)
          | None \<Rightarrow> matchName ns (Suc k) rp))"

fun getDigits :: "nat \<Rightarrow> nat \<Rightarrow> nat \<Rightarrow> string \<Rightarrow> nat \<times> string" where
  "getDigits to n val [] = (val, [])"
| "getDigits to n val (c # rp) =
     (if 0 < n \<and> val * 10 \<le> to \<and> isdigit c
      then getDigits to (n - 1) (val * 10 + digitVal c) rp
      else (val, c # rp))"

definition getNumber :: "nat \<Rightarrow> nat \<Rightarrow> nat \<Rightarrow> string \<Rightarrow> (nat \<times> string) option" where
  "getNumber from to n rp0 =
     (case dropWhile isspace rp0 of
        [] \<Rightarrow> None
      | c # rp \<Rightarrow>
          if \<not> isdigit c then None
          else (let (val, rest) = getDigits to (n - 1) (digitVal c) rp
                in if val < from \<or> to < val then None else Some (val, rest)))"

definition matchChar :: "char \<Rightarrow> string \<Rightarrow> string option" where
  "matchChar f rp = (case rp of [] \<Rightarrow> None | c # r \<Rightarrow> if c = f then Some r else None)"

definition conv_T :: "string \<Rightarrow> tm \<Rightarrow> (string \<times> tm) option" where
  "conv_T rp t =
     Option.bind (getNumber 0 23 2 rp) (\<lambda>(h, r1).
     Option.bind (matchChar (CHR '':'') r1) (\<lambda>r2.
     Option.bind (getNumber 0 59 2 r2) (\<lambda>(m, r3).
     Option.bind (matchChar (CHR '':'') r3) (\<lambda>r4.
     Option.bind (getNumber 0 61 2 r4) (\<lambda>(s, r5).
       Some (r5, t\<lparr>tm_hour := int h, tm_min := int m, tm_sec := int s\<rparr>))))))"

definition conversion :: "char \<Rightarrow> string \<Rightarrow> tm \<Rightarrow> (string \<times> tm) option" where
  "conversion d rp t =
     (if d = CHR ''a'' then
        map_option (\<lambda>(k, r). (r, t\<lparr>tm_wday := int k\<rparr>)) (matchName weekdayNames 0 rp)
      else if d = CHR ''b'' then
        map_option (\<lambda>(k, r). (r, t\<lparr>tm_mon := int k\<rparr>)) (matchName monthNames 0 rp)
      else if d = CHR ''d'' then
        map_option (\<lambda>(v, r). (r, t\<lparr>tm_mday := int v\<rparr>)) (getNumber 1 31 2 rp)
      else if d = CHR ''Y'' then
        map_option (\<lambda>(v, r). (r, t\<lparr>tm_year := int v - 1900\<rparr>)) (getNumber 0 9999 4 rp)
      else if d = CHR ''y'' then
        map_option (\<lambda>(v, r). (r, t\<lparr>tm_year := (if 69 \<le> v then int v else int v + 100)\<rparr>))
          (getNumber 0 99 2 rp)
      else if d = CHR ''T'' then conv_T rp t
      else None)"

fun strptime :: "string \<Rightarrow> string \<Rightarrow> tm \<Rightarrow> (string \<times> tm) option" where
  "strptime rp [] t = Some (rp, t)"
| "strptime rp [f] t =
     (if isspace f then Some (dropWhile isspace rp, t)
      else if f \<noteq> CHR ''%'' then map_option (\<lambda>r. (r, t)) (matchChar f rp)
      else None)"
| "strptime rp (f # d # fmt) t =
     (if isspace f then strptime (dropWhile isspace rp) (d # fmt) t
      else if f \<noteq> CHR ''%'' then
        (case matchChar f rp of None \<Rightarrow> None | Some r \<Rightarrow> strptime r (d # fmt) t)
      else
        (case conversion d rp t of None \<Rightarrow> None | Some (r, t') \<Rightarrow> strptime r fmt t'))"

section \<open>timegm\<close>

definition isLeap :: "int \<Rightarrow> bool" where
  "isLeap y = (y mod 4 = 0 \<and> (y mod 100 \<noteq> 0 \<or> y mod 400 = 0))"

definition leapsBefore :: "int \<Rightarrow> int" where
  "leapsBefore y = (y - 1) div 4 - (y - 1) div 100 + (y - 1) div 400"

definition daysBeforeMonth :: "int \<Rightarrow> int" where
  "daysBeforeMonth m = [0, 31, 59, 90, 120, 151, 181, 212, 243, 273, 304, 334] ! nat m"

definition daysFromEpoch :: "int \<Rightarrow> int \<Rightarrow> int \<Rightarrow> int" where
  "daysFromEpoch y m d =
     365 * (y - 1970) + (leapsBefore y - leapsBefore 1970) + daysBeforeMonth m
       + (if isLeap y \<and> 2 \<le> m then 1 else 0) + (d - 1)"

definition timegm :: "tm \<Rightarrow> int" where
  "timegm t =
     86400 * daysFromEpoch (tm_year t + 1900) (tm_mon t) (tm_mday t)
       + 3600 * tm_hour t + 60 * tm_min t + tm_sec t"

section \<open>The five formats\<close>

definition dateFormats :: "string list" where
  "dateFormats =
     [''%a, %d %b %Y %T GMT'',
      ''%a, %d-%b-%y %T GMT'',
      ''%a %b %d %T %Y'',
      ''%a, %d-%b-%Y %T GMT'',
      ''%a, %d %b %Y %T -0000'']"

fun tryFormats :: "string list \<Rightarrow> string \<Rightarrow> tm \<Rightarrow> (string \<times> tm) option" where
  "tryFormats [] v t = None"
| "tryFormats (f # fs) v t =
     (case strptime v f t of Some r \<Rightarrow> Some r | None \<Rightarrow> tryFormats fs v t)"

definition parseHttpDate :: "string \<Rightarrow> int result" where
  "parseHttpDate v =
     (case tryFormats dateFormats (cStr v) tm_zero of
        Some ([], t) \<Rightarrow> Inr (timegm t)
      | _ \<Rightarrow> Inl (InvalidDate v))"

section \<open>strtoull\<close>

text \<open>
  The value \<^verbatim>\<open>strtoull\<close> returns is an unsigned 64-bit number, here an
  \<^typ>\<open>int\<close> between 0 and \<open>2 ^ 64 - 1\<close>: the digits' value, \<^verbatim>\<open>ULLONG_MAX\<close> when
  it does not fit, and its negation modulo \<open>2 ^ 64\<close> after a minus sign.  With
  no digit nothing is consumed.  The source stores the result in an
  \<^verbatim>\<open>int64_t\<close>; \<open>toInt64\<close> is that conversion.
\<close>

definition digitsVal :: "string \<Rightarrow> int" where
  "digitsVal ds = foldl (\<lambda>a c. 10 * a + int (digitVal c)) 0 ds"

definition strtoull :: "string \<Rightarrow> int \<times> string" where
  "strtoull s =
     (let s1 = dropWhile isspace s;
          neg = (s1 \<noteq> [] \<and> hd s1 = CHR ''-'');
          s2 = (if s1 \<noteq> [] \<and> (hd s1 = CHR ''-'' \<or> hd s1 = CHR ''+'') then tl s1 else s1);
          ds = takeWhile isdigit s2;
          v = digitsVal ds
      in if ds = [] then (0, s)
         else (if 2 ^ 64 \<le> v then 2 ^ 64 - 1
               else if neg then (2 ^ 64 - v) mod 2 ^ 64
               else v,
               dropWhile isdigit s2))"

definition toInt64 :: "int \<Rightarrow> int" where
  "toInt64 n = (if n mod 2 ^ 64 < 2 ^ 63 then n mod 2 ^ 64 else n mod 2 ^ 64 - 2 ^ 64)"

definition parseMaxAge :: "string \<Rightarrow> int result" where
  "parseMaxAge v =
     (let (n, rest) = strtoull (cStr v)
      in if length rest < length (cStr v) \<and> rest = [] then Inr (toInt64 n)
         else Inl (InvalidMaxAge v))"

section \<open>Lemmas on the number conversions\<close>

lemma isdigit_not_others:
  "isdigit c \<Longrightarrow> \<not> isspace c \<and> c \<noteq> CHR ''-'' \<and> c \<noteq> CHR ''+'' \<and> c \<noteq> NUL \<and> c \<noteq> CHR '':''"
  by (auto simp: isdigit_def isspace_def uchar_def)

lemma list_all_takeWhile_id: "list_all P xs \<Longrightarrow> takeWhile P xs = xs"
  by (induction xs) simp_all

lemma list_all_dropWhile_Nil: "list_all P xs \<Longrightarrow> dropWhile P xs = []"
  by (induction xs) simp_all

lemma digitsVal_snoc: "digitsVal (ds @ [c]) = 10 * digitsVal ds + int (digitVal c)"
  by (simp add: digitsVal_def)

lemma digitsVal_strNat: "digitsVal (strNat n) = int n"
proof (induction n rule: strNat.induct)
  case (1 n)
  show ?case
  proof (cases "n < 10")
    case True
    then show ?thesis
      by (subst strNat.simps) (simp add: digitsVal_def)
  next
    case False
    with 1 have "digitsVal (strNat (n div 10)) = int (n div 10)" by simp
    moreover have "10 * int (n div 10) + int (n mod 10) = int n"
      by (metis mult_div_mod_eq of_nat_add of_nat_mult of_nat_numeral)
    ultimately show ?thesis
      using False by (subst strNat.simps) (simp add: digitsVal_snoc)
  qed
qed

lemma digitsVal_nonneg: "0 \<le> digitsVal ds"
proof -
  have "0 \<le> a \<Longrightarrow> 0 \<le> foldl (\<lambda>a c. 10 * a + int (digitVal c)) a ds" for a
    by (induction ds arbitrary: a) simp_all
  then show ?thesis by (simp add: digitsVal_def)
qed

lemma hd_strNat_isdigit: "isdigit (hd (strNat n))"
  using strNat_digits [of n] strNat_not_Nil [of n]
  by (cases "strNat n") simp_all

lemma strtoull_strNat:
  "strtoull (strNat n) = (if 2 ^ 64 \<le> int n then 2 ^ 64 - 1 else int n, [])"
proof -
  have "dropWhile isspace (strNat n) = strNat n"
    using hd_strNat_isdigit [of n] strNat_not_Nil [of n]
    by (cases "strNat n") (auto dest: isdigit_not_others)
  moreover have "hd (strNat n) \<noteq> CHR ''-''" "hd (strNat n) \<noteq> CHR ''+''"
    using hd_strNat_isdigit [of n] by (auto dest: isdigit_not_others)
  ultimately show ?thesis
    by (simp add: strtoull_def Let_def list_all_takeWhile_id list_all_dropWhile_Nil
        strNat_digits digitsVal_strNat)
qed

lemma cStr_strNat [simp]: "cStr (strNat n) = strNat n"
proof -
  have "NUL \<notin> set (strNat n)"
    using strNat_digits [of n] by (auto simp: list_all_iff dest: isdigit_not_others)
  then show ?thesis by simp
qed

lemma strtoull_range: "0 \<le> fst (strtoull s) \<and> fst (strtoull s) < 2 ^ 64"
  using digitsVal_nonneg by (auto simp: strtoull_def Let_def)

lemma toInt64_range: "- (2 ^ 63) \<le> toInt64 n \<and> toInt64 n < 2 ^ 63"
proof -
  have "0 \<le> n mod 2 ^ 64" "n mod 2 ^ 64 < 2 ^ 64" by simp_all
  then show ?thesis by (auto simp: toInt64_def)
qed

lemma toInt64_small: "0 \<le> n \<Longrightarrow> n < 2 ^ 63 \<Longrightarrow> toInt64 n = n"
  by (simp add: toInt64_def)

lemma parseMaxAge_strNat: "int n < 2 ^ 63 \<Longrightarrow> parseMaxAge (strNat n) = Inr (int n)"
  by (simp add: parseMaxAge_def strtoull_strNat toInt64_small)

lemma parseMaxAge_Inl: "parseMaxAge v = Inl e \<Longrightarrow> e = InvalidMaxAge v"
  by (auto simp: parseMaxAge_def Let_def split: prod.splits if_splits)

lemma parseMaxAge_Inr_range: "parseMaxAge v = Inr x \<Longrightarrow> - (2 ^ 63) \<le> x \<and> x < 2 ^ 63"
  using toInt64_range by (auto simp: parseMaxAge_def Let_def split: prod.splits if_splits)

lemma parseHttpDate_Inl: "parseHttpDate v = Inl e \<Longrightarrow> e = InvalidDate v"
  by (auto simp: parseHttpDate_def split: option.splits prod.splits list.splits)

section \<open>The formats on the date of the specification\<close>

lemmas date_eval = parseHttpDate_def dateFormats_def conversion_def conv_T_def getNumber_def
  weekdayNames_def monthNames_def matchString_def matchChar_def char_eval timegm_def
  daysFromEpoch_def leapsBefore_def isLeap_def daysBeforeMonth_def cStr_def tm_zero_def Let_def

lemmas maxage_eval = parseMaxAge_def strtoull_def digitsVal_def toInt64_def cStr_def char_eval
  Let_def

lemma parseHttpDate_rfc1123: "parseHttpDate ''Wed, 15 Nov 1995 06:25:24 GMT'' = Inr 816416724"
  by (simp add: date_eval)

lemma parseHttpDate_rfc850: "parseHttpDate ''Wednesday, 15-Nov-95 06:25:24 GMT'' = Inr 816416724"
  by (simp add: date_eval)

lemma parseHttpDate_asctime: "parseHttpDate ''Wed Nov 15 06:25:24 1995'' = Inr 816416724"
  by (simp add: date_eval)

lemma parseHttpDate_hyphen4: "parseHttpDate ''Wed, 15-Nov-1995 06:25:24 GMT'' = Inr 816416724"
  by (simp add: date_eval)

lemma parseHttpDate_rack: "parseHttpDate ''Wed, 15 Nov 1995 06:25:24 -0000'' = Inr 816416724"
  by (simp add: date_eval)

lemma parseMaxAge_examples:
  "parseMaxAge ''3600'' = Inr 3600"
  "parseMaxAge ''-5'' = Inr (- 5)"
  "parseMaxAge ''99999999999999999999999'' = Inr (- 1)"
  "parseMaxAge [] = Inl (InvalidMaxAge [])"
  "parseMaxAge ''12x'' = Inl (InvalidMaxAge ''12x'')"
  by (simp_all add: maxage_eval)

section \<open>Properties\<close>

text \<open>
  The five date formats the cookie parser accepts all read the date of
  the specification, 15 November 1995 06:25:24 UTC, as 816416724 seconds after
  the epoch: the RFC 1123 form, the RFC 850 form with a two-digit year, the
  \<^verbatim>\<open>asctime\<close> form, the hyphenated form with a four-digit year and the form
  ending in \<^verbatim>\<open>-0000\<close>.  Text after the date makes the value invalid.
\<close>

theorem parseHttpDate_five_formats:
  "parseHttpDate ''Wed, 15 Nov 1995 06:25:24 GMT'' = Inr 816416724
   \<and> parseHttpDate ''Wednesday, 15-Nov-95 06:25:24 GMT'' = Inr 816416724
   \<and> parseHttpDate ''Wed Nov 15 06:25:24 1995'' = Inr 816416724
   \<and> parseHttpDate ''Wed, 15-Nov-1995 06:25:24 GMT'' = Inr 816416724
   \<and> parseHttpDate ''Wed, 15 Nov 1995 06:25:24 -0000'' = Inr 816416724
   \<and> parseHttpDate ''Wed, 15 Nov 1995 06:25:24 GMT+1'' =
         Inl (InvalidDate ''Wed, 15 Nov 1995 06:25:24 GMT+1'')"
proof -
  have "parseHttpDate ''Wed, 15 Nov 1995 06:25:24 GMT+1'' =
         Inl (InvalidDate ''Wed, 15 Nov 1995 06:25:24 GMT+1'')"
    by (simp add: date_eval)
  then show ?thesis
    by (simp only: parseHttpDate_rfc1123 parseHttpDate_rfc850 parseHttpDate_asctime
        parseHttpDate_hyphen4 parseHttpDate_rack simp_thms)
qed

text \<open>
  C37.  The \<^verbatim>\<open>max-age\<close> attribute: a decimal number below \<open>2 ^ 63\<close> is read
  as itself; whatever the text, the result is either the invalid-max-age
  error carrying the text or a number in the signed 64-bit range.  The
  conversion is the C library's: a leading minus sign is accepted and gives a
  negative number of seconds, and a number too large for 64 bits gives -1.
\<close>

theorem parseMaxAge_behaviour:
  "(int n < 2 ^ 63 \<longrightarrow> parseMaxAge (strNat n) = Inr (int n))
   \<and> (case parseMaxAge v of
        Inl e \<Rightarrow> e = InvalidMaxAge v
      | Inr x \<Rightarrow> - (2 ^ 63) \<le> x \<and> x < 2 ^ 63)
   \<and> parseMaxAge ''-5'' = Inr (- 5)
   \<and> parseMaxAge ''99999999999999999999999'' = Inr (- 1)"
  using parseMaxAge_Inl [of v] parseMaxAge_Inr_range [of v]
  by (simp add: parseMaxAge_strNat parseMaxAge_examples split: sum.splits)

theorem parseMaxAge_behaviour_witness:
  "int 3600 < 2 ^ 63 \<and> parseMaxAge ''3600'' = Inr 3600"
  using parseMaxAge_behaviour [of 3600 "[]"] by simp

end
