(* ===== verification/Cookie.thy ===== *)
theory Cookie
  imports Http_Date
begin

text \<open>
  The \<^verbatim>\<open>Set-Cookie\<close> branch of \<^verbatim>\<open>HttpParser::addHeader\<close> (lines 514-579) and
  the \<^verbatim>\<open>Cookie\<close> struct it fills (lines 432-444).  The header value is split
  at semicolons.  The first segment is \<^verbatim>\<open>name=value\<close> and is required; each
  further segment is an attribute: \<^verbatim>\<open>expires\<close>, \<^verbatim>\<open>max-age\<close> and \<^verbatim>\<open>path\<close> with a
  value, \<^verbatim>\<open>httponly\<close> without one, anything else ignored.  A later attribute
  overwrites an earlier one of the same kind, and the expiry is whichever of
  \<^verbatim>\<open>expires\<close> and \<^verbatim>\<open>max-age\<close> comes last.

  \<open>renderCookie\<close> is not in the program: it is the reference writer the
  round trip is stated against.
\<close>

section \<open>Definitions\<close>

datatype ExpirationType = NONE_EXPIRATION | RELATIVE | ABSOLUTE

record Cookie =
  cookieName :: string
  cookieValue :: string
  cookiePath :: string
  cookieExpires :: int
  cookieExpirationType :: ExpirationType
  cookieHttpOnly :: bool

definition newCookie :: Cookie where
  "newCookie =
     \<lparr>cookieName = [], cookieValue = [], cookiePath = [], cookieExpires = 0,
      cookieExpirationType = NONE_EXPIRATION, cookieHttpOnly = False\<rparr>"

definition cookieAttribute :: "Cookie \<Rightarrow> string \<Rightarrow> Cookie result" where
  "cookieAttribute cookie part =
     (case splitFirst part (CHR ''='') of
        Some (nm, rest) \<Rightarrow>
          (let prop = toLower (trim nm) in
           if prop = ''expires'' then
             rbind (parseHttpDate (trim rest))
               (\<lambda>t. Inr (cookie\<lparr>cookieExpires := t, cookieExpirationType := ABSOLUTE\<rparr>))
           else if prop = ''max-age'' then
             rbind (parseMaxAge (trim rest))
               (\<lambda>t. Inr (cookie\<lparr>cookieExpires := t, cookieExpirationType := RELATIVE\<rparr>))
           else if prop = ''path'' then Inr (cookie\<lparr>cookiePath := trim rest\<rparr>)
           else Inr cookie)
      | None \<Rightarrow>
          (let prop = toLower (trim part) in
           if prop = ''httponly'' then Inr (cookie\<lparr>cookieHttpOnly := True\<rparr>)
           else Inr cookie))"

fun cookieAttributes :: "Cookie \<Rightarrow> string list \<Rightarrow> Cookie result" where
  "cookieAttributes cookie [] = Inr cookie"
| "cookieAttributes cookie (part # parts) =
     (case cookieAttribute cookie part of
        Inl e \<Rightarrow> Inl e
      | Inr cookie' \<Rightarrow> cookieAttributes cookie' parts)"

definition parseCookie :: "string \<Rightarrow> Cookie result" where
  "parseCookie v =
     (case split v (CHR '';'') of
        [] \<Rightarrow> Inr newCookie
      | part # parts \<Rightarrow>
         (case splitFirst part (CHR ''='') of
            None \<Rightarrow> Inl (InvalidCookie v)
          | Some (nm, rest) \<Rightarrow>
              cookieAttributes (newCookie\<lparr>cookieName := trim nm, cookieValue := trim rest\<rparr>) parts))"

text \<open>The reference writer.\<close>

definition cookieSegments :: "Cookie \<Rightarrow> string list" where
  "cookieSegments c =
     (cookieName c @ CHR ''='' # cookieValue c)
       # (if cookiePath c = [] then [] else ['' Path='' @ cookiePath c])
       @ (if cookieExpirationType c = RELATIVE
          then ['' Max-Age='' @ strNat (nat (cookieExpires c))] else [])
       @ (if cookieHttpOnly c then ['' HttpOnly''] else [])"

definition renderCookie :: "Cookie \<Rightarrow> string" where
  "renderCookie c = strArray (cookieSegments c) '';''"

definition token :: "string \<Rightarrow> bool" where
  "token s = (CHR '';'' \<notin> set s \<and> trim s = s)"

definition writable :: "Cookie \<Rightarrow> bool" where
  "writable c =
     (token (cookieName c) \<and> CHR ''='' \<notin> set (cookieName c) \<and> token (cookieValue c)
      \<and> token (cookiePath c)
      \<and> (case cookieExpirationType c of
            NONE_EXPIRATION \<Rightarrow> cookieExpires c = 0
          | RELATIVE \<Rightarrow> 0 \<le> cookieExpires c \<and> cookieExpires c < 2 ^ 63
          | ABSOLUTE \<Rightarrow> False))"

section \<open>One attribute\<close>

lemmas cookie_eval = cookieAttribute_def splitFirst_def trim_def trimArray_def char_eval Let_def

lemma cookieAttribute_path:
  "CHR ''='' \<notin> set nm \<Longrightarrow> toLower (trim nm) = ''path'' \<Longrightarrow>
     cookieAttribute c (nm @ CHR ''='' # v) = Inr (c\<lparr>cookiePath := trim v\<rparr>)"
  by (simp add: cookieAttribute_def)

lemma cookieAttribute_max_age:
  "CHR ''='' \<notin> set nm \<Longrightarrow> toLower (trim nm) = ''max-age'' \<Longrightarrow>
     cookieAttribute c (nm @ CHR ''='' # v) =
       rbind (parseMaxAge (trim v))
         (\<lambda>t. Inr (c\<lparr>cookieExpires := t, cookieExpirationType := RELATIVE\<rparr>))"
  by (simp add: cookieAttribute_def)

lemma cookieAttribute_expires:
  "CHR ''='' \<notin> set nm \<Longrightarrow> toLower (trim nm) = ''expires'' \<Longrightarrow>
     cookieAttribute c (nm @ CHR ''='' # v) =
       rbind (parseHttpDate (trim v))
         (\<lambda>t. Inr (c\<lparr>cookieExpires := t, cookieExpirationType := ABSOLUTE\<rparr>))"
  by (simp add: cookieAttribute_def)

lemma cookieAttribute_flag:
  "CHR ''='' \<notin> set part \<Longrightarrow>
     cookieAttribute c part =
       Inr (if toLower (trim part) = ''httponly'' then c\<lparr>cookieHttpOnly := True\<rparr> else c)"
  by (simp add: cookieAttribute_def)

lemma cookieAttribute_ignored:
  assumes "CHR ''='' \<notin> set nm"
    and "toLower (trim nm) \<notin> {''expires'', ''max-age'', ''path''}"
  shows "cookieAttribute c (nm @ CHR ''='' # v) = Inr c"
  using assms by (simp add: cookieAttribute_def)

lemma cookieAttribute_keeps_name:
  "cookieAttribute c part = Inr c' \<Longrightarrow>
     cookieName c' = cookieName c \<and> cookieValue c' = cookieValue c"
  by (auto simp: cookieAttribute_def Let_def rbind_eq_Inr_iff split: option.splits if_splits)

lemma cookieAttribute_Inl:
  assumes "cookieAttribute c part = Inl e"
  shows "(\<exists>v. e = InvalidDate v) \<or> (\<exists>v. e = InvalidMaxAge v)"
proof (cases "splitFirst part (CHR ''='')")
  case None
  with assms show ?thesis by (simp add: cookieAttribute_def Let_def split: if_splits)
next
  case (Some p)
  obtain nm rest where p: "p = (nm, rest)" by (cases p)
  from assms Some p consider "parseHttpDate (trim rest) = Inl e" | "parseMaxAge (trim rest) = Inl e"
    by (auto simp: cookieAttribute_def Let_def rbind_eq_Inl_iff split: if_splits)
  then show ?thesis
    using parseHttpDate_Inl parseMaxAge_Inl by cases blast+
qed

lemma cookieAttributes_append:
  "cookieAttributes c (ps @ qs) =
     (case cookieAttributes c ps of Inl e \<Rightarrow> Inl e | Inr c' \<Rightarrow> cookieAttributes c' qs)"
  by (induction ps arbitrary: c) (simp_all split: sum.splits)

lemma cookieAttributes_keeps_name:
  "cookieAttributes c parts = Inr c' \<Longrightarrow>
     cookieName c' = cookieName c \<and> cookieValue c' = cookieValue c"
proof (induction parts arbitrary: c)
  case Nil
  then show ?case by simp
next
  case (Cons p ps)
  then show ?case
    by (auto split: sum.splits dest!: cookieAttribute_keeps_name)
qed

lemma cookieAttributes_Inl:
  "cookieAttributes c parts = Inl e \<Longrightarrow> (\<exists>v. e = InvalidDate v) \<or> (\<exists>v. e = InvalidMaxAge v)"
proof (induction parts arbitrary: c)
  case Nil
  then show ?case by simp
next
  case (Cons p ps)
  then show ?case
    by (auto split: sum.splits dest: cookieAttribute_Inl)
qed

section \<open>The whole header\<close>

lemma parseCookie_first:
  assumes "CHR '';'' \<notin> set nm" "CHR ''='' \<notin> set nm" "CHR '';'' \<notin> set v"
  shows "parseCookie (nm @ CHR ''='' # v) = Inr (newCookie\<lparr>cookieName := trim nm, cookieValue := trim v\<rparr>)"
proof -
  from assms have "split (nm @ CHR ''='' # v) (CHR '';'') = [nm @ CHR ''='' # v]"
    by (simp add: split_no_delim)
  with assms show ?thesis by (simp add: parseCookie_def)
qed

lemma parseCookie_no_equals:
  assumes "CHR ''='' \<notin> set (takeWhile (\<lambda>c. c \<noteq> CHR '';'') v)"
  shows "parseCookie v = Inl (InvalidCookie v)"
proof (cases "CHR '';'' \<in> set v")
  case False
  then have "takeWhile (\<lambda>c. c \<noteq> CHR '';'') v = v"
    by (auto simp: takeWhile_eq_all_conv)
  with assms have "CHR ''='' \<notin> set v" by simp
  with False show ?thesis by (simp add: parseCookie_def split_no_delim)
next
  case True
  then obtain a b where v: "v = a @ CHR '';'' # b" and a: "CHR '';'' \<notin> set a"
    by (metis split_list_first)
  with assms have "CHR ''='' \<notin> set a" by (simp add: takeWhile_until)
  with a show ?thesis unfolding v by (simp add: parseCookie_def split_append_delim)
qed

lemma parseCookie_Inl:
  assumes "parseCookie v = Inl e"
  shows "e = InvalidCookie v \<or> (\<exists>d. e = InvalidDate d) \<or> (\<exists>d. e = InvalidMaxAge d)"
proof (cases "split v (CHR '';'')")
  case Nil
  then show ?thesis by simp
next
  case (Cons part parts)
  show ?thesis
  proof (cases "splitFirst part (CHR ''='')")
    case None
    with Cons assms show ?thesis by (simp add: parseCookie_def)
  next
    case (Some p)
    with Cons assms obtain c where "cookieAttributes c parts = Inl e"
      by (auto simp: parseCookie_def split: prod.splits)
    from cookieAttributes_Inl [OF this] show ?thesis by blast
  qed
qed

lemma parseCookie_segments:
  assumes "CHR '';'' \<notin> set nm" "CHR '';'' \<notin> set v" "CHR ''='' \<notin> set nm"
  shows "parseCookie (nm @ CHR ''='' # v @ CHR '';'' # attrs) =
           cookieAttributes (newCookie\<lparr>cookieName := trim nm, cookieValue := trim v\<rparr>)
             (split attrs (CHR '';''))"
proof -
  have "split ((nm @ CHR ''='' # v) @ CHR '';'' # attrs) (CHR '';'')
          = (nm @ CHR ''='' # v) # split attrs (CHR '';'')"
    using assms by (intro split_append_delim) simp
  with assms show ?thesis by (simp add: parseCookie_def)
qed

section \<open>The reference writer read back\<close>

lemma token_trim [simp]: "token s \<Longrightarrow> trim s = s"
  by (simp add: token_def)

lemma token_no_semicolon [simp]: "token s \<Longrightarrow> CHR '';'' \<notin> set s"
  by (simp add: token_def)

lemma trim_space_token: "token s \<Longrightarrow> trim (CHR '' '' # s) = s"
proof -
  assume t: "token s"
  have "trimArray (CHR '' '' # s) = trimArray s"
    by (simp add: trimArray_def char_eval)
  with t show ?thesis by (simp add: trim_def token_def)
qed

lemma strNat_token: "token (strNat n)"
proof -
  have d: "list_all isdigit (strNat n)" by (rule strNat_digits)
  then have "CHR '';'' \<notin> set (strNat n)"
    by (auto simp: list_all_iff isdigit_def uchar_def)
  moreover have "trimArray (strNat n) = strNat n"
  proof (rule trimArray_no_space)
    show "strNat n \<noteq> []" by simp
    show "\<not> isspace (hd (strNat n))"
      using hd_strNat_isdigit isdigit_not_others by blast
    have "isdigit (last (strNat n))"
      using d by (simp add: list_all_iff)
    then show "\<not> isspace (last (strNat n))"
      using isdigit_not_others by blast
  qed
  ultimately show ?thesis by (simp add: token_def trim_def)
qed

lemma split_attrs_Nil: "split [] (CHR '';'') = [[]]"
  by simp

lemma trim_literals:
  "toLower (trim ''Path'') = ''path''"
  "toLower (trim ''Max-Age'') = ''max-age''"
  "toLower (trim ''Expires'') = ''expires''"
  "toLower (trim ''HttpOnly'') = ''httponly''"
  by (simp_all add: trim_def trimArray_def char_eval)

lemma cookieAttribute_empty [simp]: "cookieAttribute c [] = Inr c"
  by (simp add: cookieAttribute_def trim_def)

lemma cookieAttribute_HttpOnly [simp]:
  "cookieAttribute c '' HttpOnly'' = Inr (c\<lparr>cookieHttpOnly := True\<rparr>)"
  by (simp add: cookieAttribute_flag trim_literals)

lemma cookieAttribute_Path:
  "token p \<Longrightarrow> cookieAttribute c ('' Path='' @ p) = Inr (c\<lparr>cookiePath := p\<rparr>)"
  using cookieAttribute_path [of "'' Path''" c p] by (simp add: trim_literals)

lemma cookieAttribute_MaxAge:
  "int n < 2 ^ 63 \<Longrightarrow>
     cookieAttribute c ('' Max-Age='' @ strNat n) =
       Inr (c\<lparr>cookieExpires := int n, cookieExpirationType := RELATIVE\<rparr>)"
  using cookieAttribute_max_age [of "'' Max-Age''" c "strNat n"] strNat_token [of n]
  by (simp add: trim_literals parseMaxAge_strNat)

lemmas cookieAttribute_written [simp] =
  cookieAttribute_Path [simplified] cookieAttribute_MaxAge [simplified]

lemma parseCookie_strArray:
  assumes "\<forall>p \<in> set (first # attrs). CHR '';'' \<notin> set p"
    and "CHR ''='' \<notin> set nm" and "first = nm @ CHR ''='' # v"
  shows "parseCookie (strArray (first # attrs) '';'') =
           cookieAttributes (newCookie\<lparr>cookieName := trim nm, cookieValue := trim v\<rparr>) attrs"
proof -
  have "split (strArray (first # attrs) '';'') (CHR '';'') = first # attrs"
    using assms(1) by (intro split_strArray) simp_all
  with assms show ?thesis by (simp add: parseCookie_def)
qed

lemma cookieSegments_no_semicolon:
  assumes "writable c"
  shows "\<forall>p \<in> set (cookieSegments c). CHR '';'' \<notin> set p"
  using assms strNat_token [of "nat (cookieExpires c)"]
  by (auto simp: cookieSegments_def writable_def)

lemma cookieAttributes_segments:
  assumes "writable c"
  shows "cookieAttributes (newCookie\<lparr>cookieName := cookieName c, cookieValue := cookieValue c\<rparr>)
           (tl (cookieSegments c)) = Inr c"
proof -
  from assms have p: "token (cookiePath c)" by (simp add: writable_def)
  have e: "cookieExpirationType c = RELATIVE \<Longrightarrow>
             int (nat (cookieExpires c)) < 2 ^ 63 \<and> int (nat (cookieExpires c)) = cookieExpires c"
    using assms by (simp add: writable_def)
  have n: "cookieExpirationType c \<noteq> RELATIVE \<Longrightarrow>
             cookieExpirationType c = NONE_EXPIRATION \<and> cookieExpires c = 0"
    using assms by (cases "cookieExpirationType c") (simp_all add: writable_def)
  show ?thesis
    using p e n by (cases c) (auto simp: cookieSegments_def newCookie_def)
qed

lemma parseCookie_renderCookie:
  assumes "writable c"
  shows "parseCookie (renderCookie c) = Inr c"
proof -
  obtain attrs where s: "cookieSegments c = (cookieName c @ CHR ''='' # cookieValue c) # attrs"
    by (simp add: cookieSegments_def)
  from assms have t: "trim (cookieName c) = cookieName c" "trim (cookieValue c) = cookieValue c"
    and q: "CHR ''='' \<notin> set (cookieName c)"
    by (simp_all add: writable_def)
  from cookieSegments_no_semicolon [OF assms] s
  have "parseCookie (renderCookie c) =
          cookieAttributes (newCookie\<lparr>cookieName := trim (cookieName c),
                                       cookieValue := trim (cookieValue c)\<rparr>) attrs"
    unfolding renderCookie_def s by (intro parseCookie_strArray [OF _ q]) simp_all
  also have "\<dots> = Inr c"
    using cookieAttributes_segments [OF assms] s t by simp
  finally show ?thesis .
qed

lemma parseCookie_Inr:
  assumes "parseCookie v = Inr c"
  shows "\<exists>nm rest. splitFirst (hd (split v (CHR '';''))) (CHR ''='') = Some (nm, rest)
           \<and> cookieName c = trim nm \<and> cookieValue c = trim rest"
proof -
  obtain part parts where s: "split v (CHR '';'') = part # parts"
    by (cases "split v (CHR '';'')") simp_all
  with assms obtain nm rest where f: "splitFirst part (CHR ''='') = Some (nm, rest)"
    and a: "cookieAttributes (newCookie\<lparr>cookieName := trim nm, cookieValue := trim rest\<rparr>) parts
              = Inr c"
    by (auto simp: parseCookie_def split: option.splits)
  from cookieAttributes_keeps_name [OF a] f s show ?thesis by simp
qed

lemma cookie_eval_attrs:
  "cookieAttribute c '' Path=/'' = Inr (c\<lparr>cookiePath := ''/''\<rparr>)"
  "cookieAttribute c '' Expires=Wed, 15 Nov 1995 06:25:24 GMT'' =
     Inr (c\<lparr>cookieExpires := 816416724, cookieExpirationType := ABSOLUTE\<rparr>)"
proof -
  have t: "trim ''Wed, 15 Nov 1995 06:25:24 GMT'' = ''Wed, 15 Nov 1995 06:25:24 GMT''"
    "trim ''/'' = ''/''"
    by (simp_all add: trim_def trimArray_def char_eval)
  show "cookieAttribute c '' Path=/'' = Inr (c\<lparr>cookiePath := ''/''\<rparr>)"
    using cookieAttribute_path [of "'' Path''" c "''/''"] by (simp add: trim_literals t)
  show "cookieAttribute c '' Expires=Wed, 15 Nov 1995 06:25:24 GMT'' =
     Inr (c\<lparr>cookieExpires := 816416724, cookieExpirationType := ABSOLUTE\<rparr>)"
    using cookieAttribute_expires [of "'' Expires''" c "''Wed, 15 Nov 1995 06:25:24 GMT''"]
    by (simp add: trim_literals t parseHttpDate_rfc1123)
qed

section \<open>Properties\<close>

text \<open>
  The cookie of the specification's scenario: the header value
  \<^verbatim>\<open>a=b; Path=/; HttpOnly; Expires=Wed, 15 Nov 1995 06:25:24 GMT\<close> is read as
  the cookie named \<^verbatim>\<open>a\<close> with value \<^verbatim>\<open>b\<close>, path \<^verbatim>\<open>/\<close>, the HTTP-only flag set and
  the absolute expiry 816416724 seconds after the epoch.
\<close>

theorem parseCookie_scenario:
  "parseCookie ''a=b; Path=/; HttpOnly; Expires=Wed, 15 Nov 1995 06:25:24 GMT'' =
     Inr \<lparr>cookieName = ''a'', cookieValue = ''b'', cookiePath = ''/'',
          cookieExpires = 816416724, cookieExpirationType = ABSOLUTE, cookieHttpOnly = True\<rparr>"
proof -
  have t: "trim ''a'' = ''a''" "trim ''b'' = ''b''"
    by (simp_all add: trim_def trimArray_def char_eval)
  have "parseCookie (strArray [''a=b'', '' Path=/'', '' HttpOnly'',
            '' Expires=Wed, 15 Nov 1995 06:25:24 GMT''] '';'') =
          cookieAttributes (newCookie\<lparr>cookieName := trim ''a'', cookieValue := trim ''b''\<rparr>)
            ['' Path=/'', '' HttpOnly'', '' Expires=Wed, 15 Nov 1995 06:25:24 GMT'']"
    by (rule parseCookie_strArray) simp_all
  then show ?thesis
    by (simp add: t cookie_eval_attrs newCookie_def)
qed

text \<open>
  C31.  Reading back what the reference writer writes: a cookie whose name,
  value and path are trimmed and free of semicolons, whose name has no equals
  sign, and whose expiry is absent or a relative number of seconds below
  \<open>2 ^ 63\<close>, is recovered field by field from its header value.
\<close>

theorem parseCookie_roundtrip:
  "writable c \<Longrightarrow> parseCookie (renderCookie c) = Inr c"
  by (rule parseCookie_renderCookie)

theorem parseCookie_roundtrip_witness:
  "writable \<lparr>cookieName = ''sid'', cookieValue = ''x1'', cookiePath = ''/app'',
       cookieExpires = 60, cookieExpirationType = RELATIVE, cookieHttpOnly = True\<rparr>
   \<and> renderCookie \<lparr>cookieName = ''sid'', cookieValue = ''x1'', cookiePath = ''/app'',
       cookieExpires = 60, cookieExpirationType = RELATIVE, cookieHttpOnly = True\<rparr>
       = ''sid=x1; Path=/app; Max-Age=60; HttpOnly''
   \<and> parseCookie ''sid=x1; Path=/app; Max-Age=60; HttpOnly'' =
       Inr \<lparr>cookieName = ''sid'', cookieValue = ''x1'', cookiePath = ''/app'',
          cookieExpires = 60, cookieExpirationType = RELATIVE, cookieHttpOnly = True\<rparr>"
proof -
  let ?c = "\<lparr>cookieName = ''sid'', cookieValue = ''x1'', cookiePath = ''/app'',
       cookieExpires = 60, cookieExpirationType = RELATIVE, cookieHttpOnly = True\<rparr>"
  have w: "writable ?c"
    by (simp add: writable_def token_def trim_def trimArray_def char_eval)
  have r: "renderCookie ?c = ''sid=x1; Path=/app; Max-Age=60; HttpOnly''"
    by (simp add: renderCookie_def cookieSegments_def)
  from parseCookie_roundtrip [OF w] w r show ?thesis by simp
qed

text \<open>
  C35.  A cookie needs a name: when the text before the first semicolon has no
  equals sign the header is refused with the invalid-cookie error, and when a
  cookie is returned its name and value are the trimmed text before and after
  the first equals sign of that first segment, whatever the attributes are.
  The only other errors are an unreadable date and an unreadable max-age.
\<close>

theorem parseCookie_name_required:
  "(CHR ''='' \<notin> set (takeWhile (\<lambda>c. c \<noteq> CHR '';'') v) \<longrightarrow> parseCookie v = Inl (InvalidCookie v))
   \<and> (case parseCookie v of
        Inl e \<Rightarrow> e = InvalidCookie v \<or> (\<exists>d. e = InvalidDate d) \<or> (\<exists>d. e = InvalidMaxAge d)
      | Inr c \<Rightarrow> \<exists>nm rest. splitFirst (hd (split v (CHR '';''))) (CHR ''='') = Some (nm, rest)
                  \<and> cookieName c = trim nm \<and> cookieValue c = trim rest)"
  using parseCookie_no_equals [of v] parseCookie_Inl [of v] parseCookie_Inr [of v]
  by (simp split: sum.splits)

theorem parseCookie_name_required_witness:
  "CHR ''='' \<notin> set (takeWhile (\<lambda>c. c \<noteq> CHR '';'') ''flag; a=b'')
   \<and> parseCookie ''flag; a=b'' = Inl (InvalidCookie ''flag; a=b'')"
  using parseCookie_name_required [of "''flag; a=b''"] by simp

text \<open>
  The expiry is whichever of \<^verbatim>\<open>Expires\<close> and \<^verbatim>\<open>Max-Age\<close> comes last in
  the header: after any attributes that were accepted, a final readable
  \<^verbatim>\<open>Max-Age\<close> makes the expiry relative with that number of seconds, and a
  final \<^verbatim>\<open>Expires\<close> in the RFC 1123 form of the specification's date makes
  it absolute; the attributes before it keep their other effects.
\<close>

theorem cookie_last_expiry_wins:
  assumes "cookieAttributes c ps = Inr c'" and "int n < 2 ^ 63"
  shows "cookieAttributes c (ps @ ['' Max-Age='' @ strNat n]) =
           Inr (c'\<lparr>cookieExpires := int n, cookieExpirationType := RELATIVE\<rparr>)
       \<and> cookieAttributes c (ps @ ['' Expires=Wed, 15 Nov 1995 06:25:24 GMT'']) =
           Inr (c'\<lparr>cookieExpires := 816416724, cookieExpirationType := ABSOLUTE\<rparr>)"
  using assms by (simp add: cookieAttributes_append cookie_eval_attrs)

theorem cookie_last_expiry_wins_witness:
  "cookieAttributes newCookie ['' Expires=Wed, 15 Nov 1995 06:25:24 GMT'', '' Max-Age=5''] =
     Inr (newCookie\<lparr>cookieExpires := 5, cookieExpirationType := RELATIVE\<rparr>)"
proof -
  have s: "strNat 5 = ''5''" by simp
  have "cookieAttributes newCookie ['' Expires=Wed, 15 Nov 1995 06:25:24 GMT''] =
          Inr (newCookie\<lparr>cookieExpires := 816416724, cookieExpirationType := ABSOLUTE\<rparr>)"
    by (simp add: cookie_eval_attrs)
  from cookie_last_expiry_wins [OF this, of 5] show ?thesis by (simp add: s)
qed

end
