(* ===== verification/Http_Parser.thy ===== *)
theory Http_Parser
  imports Cookie
begin

text \<open>
  The class \<^verbatim>\<open>HttpParser\<close> (lines 163-673) without its three \<^verbatim>\<open>build\<close>
  methods: the fields, the six callbacks the \<^verbatim>\<open>http_parser\<close> library calls,
  \<^verbatim>\<open>addHeader\<close>, \<^verbatim>\<open>findHeader\<close>, \<^verbatim>\<open>readResponse\<close>, \<^verbatim>\<open>pumpStream\<close> and
  \<^verbatim>\<open>pumpStreamInternal\<close>.

  The library is not part of the program.  It is a parameter here: a function
  from the library's own state and the bytes it is given to the actions it
  takes in order (the callbacks it makes and its two writes to the fields
  \<^verbatim>\<open>status_code\<close> and \<^verbatim>\<open>upgrade\<close> the program reads), the number of bytes it
  consumed, and its state afterwards.  Every callback of the program returns
  0, so the library never sees anything of the program's state.

  The upstream connection is the list of the chunks its reads will return; a
  read at the end of the list, or an empty chunk, is a read of 0 bytes.  The
  calls made on the response stream capability are recorded in order in the
  field \<open>responseStream\<close>.
\<close>

section \<open>State\<close>

datatype HeaderElementType = NONE | FIELD | VALUE

record RawHeader =
  rawName :: string
  rawValue :: string

record Header =
  headerName :: string
  headerValue :: string

datatype StreamCall = WriteCall bytes | DoneCall

record 'l HttpParser =
  parserLib :: 'l
  status_code :: nat
  upgrade :: bool
  responseStream :: "StreamCall list"
  headersComplete :: bool
  messageComplete :: bool
  rawHeaders :: "RawHeader list"
  rawStatusString :: string
  lastHeaderElement :: HeaderElementType
  headers :: "string \<rightharpoonup> Header"
  body :: bytes
  cookies :: "Cookie list"
  statusString :: string
  isStreaming :: bool

datatype ParserEvent =
    SetStatusCode nat
  | SetUpgrade bool
  | OnStatus string
  | OnHeaderField string
  | OnHeaderValue string
  | OnHeadersComplete
  | OnBody bytes
  | OnMessageComplete

type_synonym 'l http_lib = "'l \<Rightarrow> bytes \<Rightarrow> ParserEvent list \<times> nat \<times> 'l"

definition newHttpParser :: "'l \<Rightarrow> 'l HttpParser" where
  "newHttpParser l =
     \<lparr>parserLib = l, status_code = 0, upgrade = False, responseStream = [],
      headersComplete = False, messageComplete = False, rawHeaders = [],
      rawStatusString = [], lastHeaderElement = NONE, headers = Map.empty, body = [],
      cookies = [], statusString = [], isStreaming = False\<rparr>"

section \<open>Callbacks\<close>

definition findHeader :: "'l HttpParser \<Rightarrow> string \<Rightarrow> string option" where
  "findHeader p nm = map_option headerValue (headers p nm)"

definition onStatus :: "'l HttpParser \<Rightarrow> string \<Rightarrow> 'l HttpParser" where
  "onStatus p status = p\<lparr>rawStatusString := rawStatusString p @ status\<rparr>"

definition updateLast :: "(RawHeader \<Rightarrow> RawHeader) \<Rightarrow> RawHeader list \<Rightarrow> RawHeader list result" where
  "updateLast f rhs =
     (if rhs = [] then Inl OutOfBounds
      else Inr (rhs[length rhs - 1 := f (rhs ! (length rhs - 1))]))"

definition onHeaderField :: "'l HttpParser \<Rightarrow> string \<Rightarrow> 'l HttpParser result" where
  "onHeaderField p nm =
     (let resized = (if lastHeaderElement p \<noteq> FIELD
                     then rawHeaders p @ [\<lparr>rawName = [], rawValue = []\<rparr>]
                     else rawHeaders p)
      in rbind (updateLast (\<lambda>h. h\<lparr>rawName := rawName h @ nm\<rparr>) resized)
           (\<lambda>rhs. Inr (p\<lparr>rawHeaders := rhs, lastHeaderElement := FIELD\<rparr>)))"

definition onHeaderValue :: "'l HttpParser \<Rightarrow> string \<Rightarrow> 'l HttpParser result" where
  "onHeaderValue p v =
     rbind (updateLast (\<lambda>h. h\<lparr>rawValue := rawValue h @ v\<rparr>) (rawHeaders p))
       (\<lambda>rhs. Inr (p\<lparr>rawHeaders := rhs, lastHeaderElement := VALUE\<rparr>))"

definition addHeader :: "'l HttpParser \<Rightarrow> RawHeader \<Rightarrow> 'l HttpParser result" where
  "addHeader p rawHeader =
     (let nm = toLower (rawName rawHeader); v = rawValue rawHeader in
      if nm = ''set-cookie''
      then rbind (parseCookie v) (\<lambda>cookie. Inr (p\<lparr>cookies := cookies p @ [cookie]\<rparr>))
      else
        (case headers p nm of
           Some slot \<Rightarrow>
             if headerName slot \<noteq> []
             then Inr (p\<lparr>headers := (headers p)(nm \<mapsto> slot\<lparr>headerValue := headerValue slot @ '', '' @ v\<rparr>)\<rparr>)
             else Inr (p\<lparr>headers := (headers p)(nm \<mapsto> \<lparr>headerName = nm, headerValue = v\<rparr>)\<rparr>)
         | None \<Rightarrow> Inr (p\<lparr>headers := (headers p)(nm \<mapsto> \<lparr>headerName = nm, headerValue = v\<rparr>)\<rparr>)))"

fun addHeaders :: "'l HttpParser \<Rightarrow> RawHeader list \<Rightarrow> 'l HttpParser result" where
  "addHeaders p [] = Inr p"
| "addHeaders p (h # hs) = rbind (addHeader p h) (\<lambda>p'. addHeaders p' hs)"

definition onBody :: "'l HttpParser \<Rightarrow> bytes \<Rightarrow> 'l HttpParser" where
  "onBody p dat =
     (if isStreaming p then p\<lparr>responseStream := responseStream p @ [WriteCall dat]\<rparr>
      else p\<lparr>body := body p @ dat\<rparr>)"

definition onHeadersComplete :: "'l HttpParser \<Rightarrow> 'l HttpParser result" where
  "onHeadersComplete p =
     rbind (addHeaders p (rawHeaders p))
       (\<lambda>p'. if status_code p' \<ge> 100
             then Inr (p'\<lparr>statusString := rawStatusString p', headersComplete := True\<rparr>)
             else Inl (StatusBelow100 (status_code p')))"

definition onMessageComplete :: "'l HttpParser \<Rightarrow> 'l HttpParser" where
  "onMessageComplete p = p\<lparr>messageComplete := True\<rparr>"

section \<open>Running the library\<close>

fun applyEvent :: "ParserEvent \<Rightarrow> 'l HttpParser \<Rightarrow> 'l HttpParser result" where
  "applyEvent (SetStatusCode n) p = Inr (p\<lparr>status_code := n\<rparr>)"
| "applyEvent (SetUpgrade b) p = Inr (p\<lparr>upgrade := b\<rparr>)"
| "applyEvent (OnStatus s) p = Inr (onStatus p s)"
| "applyEvent (OnHeaderField s) p = onHeaderField p s"
| "applyEvent (OnHeaderValue s) p = onHeaderValue p s"
| "applyEvent OnHeadersComplete p = onHeadersComplete p"
| "applyEvent (OnBody d) p = Inr (onBody p d)"
| "applyEvent OnMessageComplete p = Inr (onMessageComplete p)"

fun runEvents :: "ParserEvent list \<Rightarrow> 'l HttpParser \<Rightarrow> 'l HttpParser \<times> error option" where
  "runEvents [] p = (p, None)"
| "runEvents (e # es) p =
     (case applyEvent e p of
        Inl err \<Rightarrow> (p, Some err)
      | Inr p' \<Rightarrow> runEvents es p')"

definition http_parser_execute ::
  "'l http_lib \<Rightarrow> 'l HttpParser \<Rightarrow> bytes \<Rightarrow> nat \<times> 'l HttpParser \<times> error option" where
  "http_parser_execute lib p dat =
     (case lib (parserLib p) dat of
        (events, nread, l') \<Rightarrow>
          (case runEvents events (p\<lparr>parserLib := l'\<rparr>) of
             (p', err) \<Rightarrow> (nread, p', err)))"

section \<open>Reading the response\<close>

datatype 'l ReadStep = Return bytes "'l HttpParser" | Again "'l HttpParser"

definition readResponseStep :: "'l http_lib \<Rightarrow> 'l HttpParser \<Rightarrow> bytes \<Rightarrow> 'l ReadStep result" where
  "readResponseStep lib p buffer =
     (case http_parser_execute lib p buffer of
        (nread, p', Some err) \<Rightarrow> Inl err
      | (nread, p', None) \<Rightarrow>
          (let actual = length buffer in
           if nread \<noteq> actual \<and> \<not> upgrade p' then Inl ParseFailed
           else if upgrade p' then
             (if nread \<le> actual then Inr (Return (drop nread buffer) p') else Inl BadParserOffset)
           else if messageComplete p' \<or> actual = 0 then
             (if headersComplete p' then Inr (Return [] p') else Inl IncompleteHeaders)
           else if headersComplete p' \<and> status_code p' div 100 = 2 then
             Inr (Return [] (p'\<lparr>isStreaming := True\<rparr>))
           else Inr (Again p')))"

fun readResponse ::
  "'l http_lib \<Rightarrow> 'l HttpParser \<Rightarrow> bytes list \<Rightarrow> (bytes \<times> 'l HttpParser \<times> bytes list) result" where
  "readResponse lib p [] =
     (case readResponseStep lib p [] of
        Inl err \<Rightarrow> Inl err
      | Inr (Return remainder p') \<Rightarrow> Inr (remainder, p', [])
      | Inr (Again p') \<Rightarrow> Inr ([], p', []))"
| "readResponse lib p (c # cs) =
     (case readResponseStep lib p c of
        Inl err \<Rightarrow> Inl err
      | Inr (Return remainder p') \<Rightarrow> Inr (remainder, p', cs)
      | Inr (Again p') \<Rightarrow> readResponse lib p' cs)"

section \<open>Pumping a streamed body\<close>

datatype 'l PumpStep = Failed error "'l HttpParser" | Finished "'l HttpParser" | More "'l HttpParser"

definition pumpStep :: "'l http_lib \<Rightarrow> 'l HttpParser \<Rightarrow> bytes \<Rightarrow> 'l PumpStep" where
  "pumpStep lib p buffer =
     (case http_parser_execute lib p buffer of
        (nread, p', Some err) \<Rightarrow> Failed err p'
      | (nread, p', None) \<Rightarrow>
          (if nread \<noteq> length buffer then Failed ParseFailed p'
           else if messageComplete p' \<or> length buffer = 0 then
             Finished (p'\<lparr>responseStream := responseStream p' @ [DoneCall]\<rparr>)
           else More p'))"

fun pumpStreamInternal ::
  "'l http_lib \<Rightarrow> 'l HttpParser \<Rightarrow> bytes list \<Rightarrow> 'l HttpParser \<times> error option" where
  "pumpStreamInternal lib p [] =
     (case pumpStep lib p [] of
        Failed err p' \<Rightarrow> (p', Some err)
      | Finished p' \<Rightarrow> (p', None)
      | More p' \<Rightarrow> (p', None))"
| "pumpStreamInternal lib p (c # cs) =
     (case pumpStep lib p c of
        Failed err p' \<Rightarrow> (p', Some err)
      | Finished p' \<Rightarrow> (p', None)
      | More p' \<Rightarrow> pumpStreamInternal lib p' cs)"

definition flushBody :: "'l HttpParser \<Rightarrow> 'l HttpParser" where
  "flushBody p =
     (if body p \<noteq> []
      then p\<lparr>responseStream := responseStream p @ [WriteCall (body p)], body := []\<rparr>
      else p)"

definition pumpStream ::
  "'l http_lib \<Rightarrow> 'l HttpParser \<Rightarrow> bytes list \<Rightarrow> 'l HttpParser \<times> error option" where
  "pumpStream lib p stream =
     (if isStreaming p then pumpStreamInternal lib (flushBody p) stream else (p, None))"

section \<open>Specification and fixtures\<close>

text \<open>
  The library reports a header as one or more pieces of its name followed by
  one or more pieces of its value.  \<open>fragmentEvents\<close> is that sequence of
  callbacks for a list of headers given as their pieces, and \<open>rawOf\<close> the
  raw header the pieces spell.
\<close>

definition rawInv :: "'l HttpParser \<Rightarrow> bool" where
  "rawInv p = (lastHeaderElement p \<noteq> NONE \<longrightarrow> rawHeaders p \<noteq> [])"

definition fragmentEvents :: "(string list \<times> string list) list \<Rightarrow> ParserEvent list" where
  "fragmentEvents hs = concat (map (\<lambda>(ns, vs). map OnHeaderField ns @ map OnHeaderValue vs) hs)"

definition rawOf :: "string list \<times> string list \<Rightarrow> RawHeader" where
  "rawOf h = \<lparr>rawName = concat (fst h), rawValue = concat (snd h)\<rparr>"

definition fragmented :: "(string list \<times> string list) list \<Rightarrow> bool" where
  "fragmented hs = list_all (\<lambda>(ns, vs). ns \<noteq> [] \<and> vs \<noteq> []) hs"

text \<open>
  What \<^verbatim>\<open>addHeader\<close> is meant to compute, stated on the list of raw headers:
  the value found for a name is the values of the headers with that name
  (compared in lower case) joined by a comma and a space in the order of
  arrival, and the cookies are the parsed \<^verbatim>\<open>Set-Cookie\<close> values in order.
\<close>

definition valuesOf :: "string \<Rightarrow> RawHeader list \<Rightarrow> string list" where
  "valuesOf nm hs = map rawValue (filter (\<lambda>h. toLower (rawName h) = nm) hs)"

definition folded :: "string option \<Rightarrow> string list \<Rightarrow> string option" where
  "folded old vs =
     (case old of
        None \<Rightarrow> if vs = [] then None else Some (strArray vs '', '')
      | Some v \<Rightarrow> Some (strArray (v # vs) '', ''))"

definition hdrInv :: "'l HttpParser \<Rightarrow> bool" where
  "hdrInv p = (\<forall>nm h. headers p nm = Some h \<longrightarrow> headerName h = nm)"

definition sameButHeaders :: "'l HttpParser \<Rightarrow> 'l HttpParser \<Rightarrow> bool" where
  "sameButHeaders p p' =
     (parserLib p' = parserLib p \<and> status_code p' = status_code p \<and> upgrade p' = upgrade p
      \<and> responseStream p' = responseStream p \<and> headersComplete p' = headersComplete p
      \<and> messageComplete p' = messageComplete p \<and> rawHeaders p' = rawHeaders p
      \<and> rawStatusString p' = rawStatusString p \<and> lastHeaderElement p' = lastHeaderElement p
      \<and> body p' = body p \<and> statusString p' = statusString p \<and> isStreaming p' = isStreaming p)"

fun writesOf :: "ParserEvent list \<Rightarrow> StreamCall list" where
  "writesOf [] = []"
| "writesOf (OnBody d # es) = WriteCall d # writesOf es"
| "writesOf (e # es) = writesOf es"

fun bodyOf :: "ParserEvent list \<Rightarrow> bytes" where
  "bodyOf [] = []"
| "bodyOf (OnBody d # es) = d @ bodyOf es"
| "bodyOf (e # es) = bodyOf es"

fun isWrite :: "StreamCall \<Rightarrow> bool" where
  "isWrite (WriteCall d) = True"
| "isWrite DoneCall = False"

definition libEvents :: "'l http_lib \<Rightarrow> 'l HttpParser \<Rightarrow> bytes \<Rightarrow> ParserEvent list" where
  "libEvents lib p buffer = fst (lib (parserLib p) buffer)"

text \<open>
  The events the library reported during the reads a call made:
  \<open>readEvents\<close> for \<^verbatim>\<open>readResponse\<close> and \<open>pumpEvents\<close> for
  \<^verbatim>\<open>pumpStreamInternal\<close>.  They are not in the program; they let the lemmas say
  which bytes of the body went where.
\<close>

fun readEvents :: "'l http_lib \<Rightarrow> 'l HttpParser \<Rightarrow> bytes list \<Rightarrow> ParserEvent list" where
  "readEvents lib p [] = libEvents lib p []"
| "readEvents lib p (c # cs) =
     libEvents lib p c @
       (case readResponseStep lib p c of Inr (Again p') \<Rightarrow> readEvents lib p' cs | _ \<Rightarrow> [])"

fun pumpEvents :: "'l http_lib \<Rightarrow> 'l HttpParser \<Rightarrow> bytes list \<Rightarrow> ParserEvent list" where
  "pumpEvents lib p [] = libEvents lib p []"
| "pumpEvents lib p (c # cs) =
     libEvents lib p c @
       (case pumpStep lib p c of More p' \<Rightarrow> pumpEvents lib p' cs | _ \<Rightarrow> [])"

definition sentData :: "StreamCall list \<Rightarrow> bytes" where
  "sentData calls = concat (map (\<lambda>c. case c of WriteCall d \<Rightarrow> d | DoneCall \<Rightarrow> []) calls)"

text \<open>The errors with which reading a response can fail.\<close>

fun readError :: "error \<Rightarrow> bool" where
  "readError ParseFailed = True"
| "readError IncompleteHeaders = True"
| "readError (StatusBelow100 n) = True"
| "readError OutOfBounds = True"
| "readError BadParserOffset = True"
| "readError (InvalidCookie v) = True"
| "readError (InvalidDate d) = True"
| "readError (InvalidMaxAge d) = True"
| "readError _ = False"

text \<open>
  A library for examples: its state is the list of the event sequences it
  will report, one per call, and it consumes every byte it is given.
\<close>

definition scriptedLib :: "ParserEvent list list http_lib" where
  "scriptedLib l buffer =
     (case l of [] \<Rightarrow> ([], length buffer, []) | evs # rest \<Rightarrow> (evs, length buffer, rest))"

definition helloEvents :: "ParserEvent list" where
  "helloEvents =
     [SetStatusCode 200, OnStatus ''OK'',
      OnHeaderField ''Content-'', OnHeaderField ''Type'', OnHeaderValue ''text/plain'',
      OnHeaderField ''Vary'', OnHeaderValue ''Accept'',
      OnHeaderField ''vary'', OnHeaderValue ''Cookie'',
      OnHeadersComplete, OnBody ''hel'']"

definition varyParser :: "unit HttpParser" where
  "varyParser = (newHttpParser ())\<lparr>status_code := 200,
          rawHeaders := [\<lparr>rawName = ''Vary'', rawValue = ''Accept''\<rparr>,
                         \<lparr>rawName = ''Set-Cookie'', rawValue = ''a=b''\<rparr>,
                         \<lparr>rawName = ''VARY'', rawValue = ''Cookie''\<rparr>]\<rparr>"

section \<open>Raw headers\<close>

lemma newHttpParser_sel [simp]:
  "parserLib (newHttpParser l) = l" "status_code (newHttpParser l) = 0"
  "upgrade (newHttpParser l) = False" "responseStream (newHttpParser l) = []"
  "headersComplete (newHttpParser l) = False" "messageComplete (newHttpParser l) = False"
  "rawHeaders (newHttpParser l) = []" "rawStatusString (newHttpParser l) = []"
  "lastHeaderElement (newHttpParser l) = NONE" "headers (newHttpParser l) = Map.empty"
  "body (newHttpParser l) = []" "cookies (newHttpParser l) = []"
  "statusString (newHttpParser l) = []" "isStreaming (newHttpParser l) = False"
  by (simp_all add: newHttpParser_def)

lemma newHttpParser_lib [simp]: "(newHttpParser l)\<lparr>parserLib := l'\<rparr> = newHttpParser l'"
  by (simp add: newHttpParser_def)

lemma updateLast_snoc [simp]: "updateLast f (rhs @ [h]) = Inr (rhs @ [f h])"
  by (simp add: updateLast_def)

lemma updateLast_Nil [simp]: "updateLast f [] = Inl OutOfBounds"
  by (simp add: updateLast_def)

lemma updateLast_Inr_iff: "(\<exists>r. updateLast f rhs = Inr r) \<longleftrightarrow> rhs \<noteq> []"
  by (simp add: updateLast_def)

lemma onHeaderField_new:
  "lastHeaderElement p \<noteq> FIELD \<Longrightarrow>
     onHeaderField p nm =
       Inr (p\<lparr>rawHeaders := rawHeaders p @ [\<lparr>rawName = nm, rawValue = []\<rparr>],
              lastHeaderElement := FIELD\<rparr>)"
  by (simp add: onHeaderField_def)

lemma onHeaderField_more:
  "lastHeaderElement p = FIELD \<Longrightarrow> rawHeaders p = rhs @ [h] \<Longrightarrow>
     onHeaderField p nm =
       Inr (p\<lparr>rawHeaders := rhs @ [h\<lparr>rawName := rawName h @ nm\<rparr>], lastHeaderElement := FIELD\<rparr>)"
  by (simp add: onHeaderField_def)

lemma onHeaderValue_snoc:
  "rawHeaders p = rhs @ [h] \<Longrightarrow>
     onHeaderValue p v =
       Inr (p\<lparr>rawHeaders := rhs @ [h\<lparr>rawValue := rawValue h @ v\<rparr>], lastHeaderElement := VALUE\<rparr>)"
  by (simp add: onHeaderValue_def)

lemma onHeaderValue_Nil: "rawHeaders p = [] \<Longrightarrow> onHeaderValue p v = Inl OutOfBounds"
  by (simp add: onHeaderValue_def)

lemma onHeaderField_rawInv:
  assumes "rawInv p"
  shows "\<exists>p'. onHeaderField p nm = Inr p' \<and> rawInv p' \<and> lastHeaderElement p' = FIELD"
proof (cases "lastHeaderElement p = FIELD")
  case True
  with assms have "rawHeaders p \<noteq> []" by (simp add: rawInv_def)
  then obtain rhs h where "rawHeaders p = rhs @ [h]"
    by (cases "rawHeaders p" rule: rev_cases) auto
  with True show ?thesis by (simp add: onHeaderField_more rawInv_def)
next
  case False
  then show ?thesis by (simp add: onHeaderField_new rawInv_def)
qed

lemma runEvents_append:
  "runEvents (es @ fs) p =
     (case runEvents es p of (p', None) \<Rightarrow> runEvents fs p' | (p', Some err) \<Rightarrow> (p', Some err))"
  by (induction es arbitrary: p) (simp_all split: sum.splits)

lemma runEvents_fields:
  assumes "lastHeaderElement p = FIELD" and "rawHeaders p = rhs @ [h]"
  shows "runEvents (map OnHeaderField ns) p =
           (p\<lparr>rawHeaders := rhs @ [h\<lparr>rawName := rawName h @ concat ns\<rparr>]\<rparr>, None)"
  using assms
proof (induction ns arbitrary: p h)
  case Nil
  then show ?case by simp
next
  case (Cons n ns)
  let ?p = "p\<lparr>rawHeaders := rhs @ [h\<lparr>rawName := rawName h @ n\<rparr>], lastHeaderElement := FIELD\<rparr>"
  have "runEvents (map OnHeaderField (n # ns)) p = runEvents (map OnHeaderField ns) ?p"
    using Cons.prems by (simp add: onHeaderField_more)
  also have "\<dots> = (?p\<lparr>rawHeaders := rhs @ [h\<lparr>rawName := rawName h @ n @ concat ns\<rparr>]\<rparr>, None)"
    using Cons.IH [of ?p "h\<lparr>rawName := rawName h @ n\<rparr>"] by simp
  finally show ?case using Cons.prems by simp
qed

lemma runEvents_values:
  assumes "rawHeaders p = rhs @ [h]" and "vs \<noteq> []"
  shows "runEvents (map OnHeaderValue vs) p =
           (p\<lparr>rawHeaders := rhs @ [h\<lparr>rawValue := rawValue h @ concat vs\<rparr>],
              lastHeaderElement := VALUE\<rparr>, None)"
  using assms
proof (induction vs arbitrary: p h)
  case Nil
  then show ?case by simp
next
  case (Cons v vs)
  let ?p = "p\<lparr>rawHeaders := rhs @ [h\<lparr>rawValue := rawValue h @ v\<rparr>], lastHeaderElement := VALUE\<rparr>"
  have step: "runEvents (map OnHeaderValue (v # vs)) p = runEvents (map OnHeaderValue vs) ?p"
    using Cons.prems by (simp add: onHeaderValue_snoc)
  show ?case
  proof (cases "vs = []")
    case True
    with step show ?thesis by simp
  next
    case False
    with step Cons.IH [of ?p "h\<lparr>rawValue := rawValue h @ v\<rparr>"] show ?thesis by simp
  qed
qed

lemma runEvents_header:
  assumes "lastHeaderElement p \<noteq> FIELD" and "ns \<noteq> []" and "vs \<noteq> []"
  shows "runEvents (map OnHeaderField ns @ map OnHeaderValue vs) p =
           (p\<lparr>rawHeaders := rawHeaders p @ [rawOf (ns, vs)], lastHeaderElement := VALUE\<rparr>, None)"
proof -
  obtain n ns' where ns: "ns = n # ns'" using assms(2) by (cases ns) auto
  let ?p1 = "p\<lparr>rawHeaders := rawHeaders p @ [\<lparr>rawName = n, rawValue = []\<rparr>],
                lastHeaderElement := FIELD\<rparr>"
  let ?p2 = "p\<lparr>rawHeaders := rawHeaders p @ [\<lparr>rawName = concat ns, rawValue = []\<rparr>],
                lastHeaderElement := FIELD\<rparr>"
  have "runEvents (map OnHeaderField ns) p = runEvents (map OnHeaderField ns') ?p1"
    using assms(1) by (simp add: ns onHeaderField_new)
  also have "\<dots> = (?p2, None)"
    using runEvents_fields [of ?p1 "rawHeaders p" "\<lparr>rawName = n, rawValue = []\<rparr>" ns']
    by (simp add: ns)
  finally have f: "runEvents (map OnHeaderField ns) p = (?p2, None)" .
  have v: "runEvents (map OnHeaderValue vs) ?p2 =
             (p\<lparr>rawHeaders := rawHeaders p @ [rawOf (ns, vs)], lastHeaderElement := VALUE\<rparr>, None)"
    using runEvents_values [of ?p2 "rawHeaders p" "\<lparr>rawName = concat ns, rawValue = []\<rparr>" vs]
      assms(3)
    by (simp add: rawOf_def)
  show ?thesis unfolding runEvents_append f using v by simp
qed

lemma fragmentEvents_Cons:
  "fragmentEvents ((ns, vs) # hs) =
     (map OnHeaderField ns @ map OnHeaderValue vs) @ fragmentEvents hs"
  by (simp add: fragmentEvents_def)

lemma runEvents_fragments:
  assumes "fragmented hs" and "lastHeaderElement p \<noteq> FIELD"
  shows "runEvents (fragmentEvents hs) p =
           (if hs = [] then p
            else p\<lparr>rawHeaders := rawHeaders p @ map rawOf hs, lastHeaderElement := VALUE\<rparr>, None)"
  using assms
proof (induction hs arbitrary: p)
  case Nil
  then show ?case by (simp add: fragmentEvents_def)
next
  case (Cons h hs)
  obtain ns vs where h: "h = (ns, vs)" by (cases h)
  let ?p = "p\<lparr>rawHeaders := rawHeaders p @ [rawOf (ns, vs)], lastHeaderElement := VALUE\<rparr>"
  from Cons.prems h have nv: "ns \<noteq> []" "vs \<noteq> []" and hs: "fragmented hs"
    by (simp_all add: fragmented_def)
  have "runEvents (fragmentEvents (h # hs)) p = runEvents (fragmentEvents hs) ?p"
    unfolding h fragmentEvents_Cons runEvents_append [of "map OnHeaderField ns @ map OnHeaderValue vs"]
      runEvents_header [OF Cons.prems(2) nv]
    by simp
  with Cons.IH [OF hs, of ?p] show ?case by (simp add: h)
qed

section \<open>Folding the headers\<close>

lemma valuesOf_Nil [simp]: "valuesOf nm [] = []"
  by (simp add: valuesOf_def)

lemma valuesOf_Cons [simp]:
  "valuesOf nm (h # hs) =
     (if toLower (rawName h) = nm then rawValue h # valuesOf nm hs else valuesOf nm hs)"
  by (simp add: valuesOf_def)

lemma valuesOf_append [simp]: "valuesOf nm (hs @ gs) = valuesOf nm hs @ valuesOf nm gs"
  by (simp add: valuesOf_def)

lemma folded_Nil [simp]: "folded old [] = old"
  by (simp add: folded_def split: option.splits)

lemma folded_Cons: "folded (folded old [v]) vs = folded old (v # vs)"
  by (cases vs) (simp_all add: folded_def split: option.splits)

lemma folded_None_iff [simp]: "folded old vs = None \<longleftrightarrow> old = None \<and> vs = []"
  by (simp add: folded_def split: option.splits)

lemma hdrInv_new [simp]: "hdrInv (newHttpParser l)"
  by (simp add: hdrInv_def newHttpParser_def)

lemma addHeader_cookie:
  "toLower (rawName h) = ''set-cookie'' \<Longrightarrow>
     addHeader p h = rbind (parseCookie (rawValue h)) (\<lambda>c. Inr (p\<lparr>cookies := cookies p @ [c]\<rparr>))"
  by (simp add: addHeader_def)

lemma addHeader_plain:
  assumes "toLower (rawName h) = nm" and "nm \<noteq> ''set-cookie''" and "hdrInv p" and "nm \<noteq> []"
  shows "addHeader p h =
           Inr (p\<lparr>headers := (headers p)(nm \<mapsto>
                  \<lparr>headerName = nm, headerValue = the (folded (findHeader p nm) [rawValue h])\<rparr>)\<rparr>)"
proof (cases "headers p nm")
  case None
  with assms show ?thesis by (simp add: addHeader_def findHeader_def folded_def)
next
  case (Some slot)
  with assms have "headerName slot = nm" by (simp add: hdrInv_def)
  with Some assms show ?thesis
    by (cases slot) (simp add: addHeader_def findHeader_def folded_def)
qed

lemma addHeader_hdrInv:
  assumes "addHeader p h = Inr p'" and "hdrInv p"
  shows "hdrInv p'"
  using assms
  by (auto simp: addHeader_def Let_def hdrInv_def rbind_eq_Inr_iff split: if_splits option.splits)

lemma addHeader_findHeader:
  assumes "addHeader p h = Inr p'" and "hdrInv p" and "nm \<noteq> []" and "nm \<noteq> ''set-cookie''"
  shows "findHeader p' nm =
           (if toLower (rawName h) = nm then folded (findHeader p nm) [rawValue h]
            else findHeader p nm)"
proof (cases "toLower (rawName h) = nm")
  case True
  from addHeader_plain [OF True assms(4,2,3)] assms(1) show ?thesis
    by (auto simp: findHeader_def True folded_def split: option.splits)
next
  case False
  with assms(1) show ?thesis
    by (auto simp: addHeader_def Let_def findHeader_def rbind_eq_Inr_iff split: if_splits option.splits)
qed

lemma addHeader_cookies:
  assumes "addHeader p h = Inr p'"
  shows "map Inr (cookies p') = map Inr (cookies p) @ map parseCookie (valuesOf ''set-cookie'' [h])"
  using assms
  by (auto simp: addHeader_def Let_def rbind_eq_Inr_iff split: if_splits option.splits)

lemma addHeader_Inl:
  "addHeader p h = Inl e \<longleftrightarrow> toLower (rawName h) = ''set-cookie'' \<and> parseCookie (rawValue h) = Inl e"
  by (auto simp: addHeader_def Let_def rbind_eq_Inl_iff split: if_splits option.splits)

lemma addHeaders_append:
  "addHeaders p (hs @ gs) = rbind (addHeaders p hs) (\<lambda>p'. addHeaders p' gs)"
  by (induction hs arbitrary: p) (simp_all add: rbind_def split: sum.splits)

lemma addHeaders_hdrInv:
  "addHeaders p hs = Inr p' \<Longrightarrow> hdrInv p \<Longrightarrow> hdrInv p'"
proof (induction hs arbitrary: p)
  case Nil
  then show ?case by simp
next
  case (Cons h hs)
  then show ?case by (auto simp: rbind_eq_Inr_iff dest: addHeader_hdrInv)
qed

lemma addHeaders_findHeader:
  assumes "addHeaders p hs = Inr p'" and "hdrInv p" and "nm \<noteq> []" and "nm \<noteq> ''set-cookie''"
  shows "findHeader p' nm = folded (findHeader p nm) (valuesOf nm hs)"
  using assms(1,2)
proof (induction hs arbitrary: p)
  case Nil
  then show ?case by simp
next
  case (Cons h hs)
  then obtain q where q: "addHeader p h = Inr q" and r: "addHeaders q hs = Inr p'"
    by (auto simp: rbind_eq_Inr_iff)
  from addHeader_hdrInv [OF q Cons.prems(2)] have "hdrInv q" .
  from Cons.IH [OF r this] addHeader_findHeader [OF q Cons.prems(2) assms(3,4)]
  show ?case by (simp add: folded_Cons)
qed

lemma addHeaders_cookies:
  "addHeaders p hs = Inr p' \<Longrightarrow>
     map Inr (cookies p') = map Inr (cookies p) @ map parseCookie (valuesOf ''set-cookie'' hs)"
proof (induction hs arbitrary: p)
  case Nil
  then show ?case by simp
next
  case (Cons h hs)
  then obtain q where q: "addHeader p h = Inr q" and r: "addHeaders q hs = Inr p'"
    by (auto simp: rbind_eq_Inr_iff)
  from Cons.IH [OF r] addHeader_cookies [OF q] show ?case by simp
qed

lemma addHeaders_Inl:
  "addHeaders p hs = Inl e \<Longrightarrow> \<exists>v \<in> set (valuesOf ''set-cookie'' hs). parseCookie v = Inl e"
proof (induction hs arbitrary: p)
  case Nil
  then show ?case by simp
next
  case (Cons h hs)
  then show ?case by (auto simp: rbind_eq_Inl_iff addHeader_Inl)
qed

lemma addHeaders_total:
  "list_all (\<lambda>v. isOk (parseCookie v)) (valuesOf ''set-cookie'' hs) \<Longrightarrow>
     \<exists>p'. addHeaders p hs = Inr p'"
proof (induction hs arbitrary: p)
  case Nil
  then show ?case by simp
next
  case (Cons h hs)
  have "\<exists>q. addHeader p h = Inr q"
  proof (cases "addHeader p h")
    case (Inl e)
    with Cons.prems show ?thesis by (auto simp: addHeader_Inl isOk_iff)
  qed simp
  then obtain q where q: "addHeader p h = Inr q" ..
  from Cons.prems have "list_all (\<lambda>v. isOk (parseCookie v)) (valuesOf ''set-cookie'' hs)"
    by (simp split: if_splits)
  from Cons.IH [OF this, of q] q show ?case by simp
qed

lemma addHeader_frame: "addHeader p h = Inr p' \<Longrightarrow> sameButHeaders p p'"
  by (auto simp: addHeader_def Let_def sameButHeaders_def rbind_eq_Inr_iff
      split: if_splits option.splits)

lemma addHeaders_frame: "addHeaders p hs = Inr p' \<Longrightarrow> sameButHeaders p p'"
proof (induction hs arbitrary: p)
  case Nil
  then show ?case by (simp add: sameButHeaders_def)
next
  case (Cons h hs)
  then obtain q where q: "addHeader p h = Inr q" and r: "addHeaders q hs = Inr p'"
    by (auto simp: rbind_eq_Inr_iff)
  from Cons.IH [OF r] addHeader_frame [OF q] show ?case
    by (simp add: sameButHeaders_def)
qed

section \<open>What the events preserve\<close>

lemma runEvents_invariant:
  assumes "runEvents evs p = (p', err)" and "P p"
    and "\<And>e q q'. P q \<Longrightarrow> applyEvent e q = Inr q' \<Longrightarrow> P q'"
  shows "P p'"
  using assms(1,2)
proof (induction evs arbitrary: p)
  case Nil
  then show ?case by simp
next
  case (Cons e evs)
  show ?case
  proof (cases "applyEvent e p")
    case (Inl x)
    with Cons.prems show ?thesis by simp
  next
    case (Inr q)
    with Cons.prems have "runEvents evs q = (p', err)" by simp
    from Cons.IH [OF this assms(3) [OF Cons.prems(2) Inr]] show ?thesis .
  qed
qed

lemma onHeadersComplete_Inr:
  assumes "onHeadersComplete p = Inr p'"
  shows "\<exists>q. addHeaders p (rawHeaders p) = Inr q \<and> status_code p \<ge> 100
           \<and> p' = q\<lparr>statusString := rawStatusString p, headersComplete := True\<rparr>"
proof -
  from assms obtain q where q: "addHeaders p (rawHeaders p) = Inr q" and c: "status_code q \<ge> 100"
    and p': "p' = q\<lparr>statusString := rawStatusString q, headersComplete := True\<rparr>"
    by (auto simp: onHeadersComplete_def rbind_eq_Inr_iff split: if_splits)
  from addHeaders_frame [OF q] have "status_code q = status_code p" "rawStatusString q = rawStatusString p"
    by (simp_all add: sameButHeaders_def)
  with q c p' show ?thesis by simp
qed

lemma isWrite_writesOf [simp]: "list_all isWrite (writesOf es)"
  by (induction es rule: writesOf.induct) simp_all

lemma applyEvent_streaming:
  assumes "applyEvent e p = Inr p'"
  shows "isStreaming p' = isStreaming p
       \<and> responseStream p' = responseStream p @ (if isStreaming p then writesOf [e] else [])
       \<and> body p' = body p @ (if isStreaming p then [] else bodyOf [e])"
proof (cases e)
  case OnHeadersComplete
  with assms obtain q where "addHeaders p (rawHeaders p) = Inr q"
    and "p' = q\<lparr>statusString := rawStatusString p, headersComplete := True\<rparr>"
    using onHeadersComplete_Inr [of p p'] by auto
  with addHeaders_frame [of p "rawHeaders p" q] OnHeadersComplete show ?thesis
    by (simp add: sameButHeaders_def)
qed (use assms in \<open>auto simp: onStatus_def onHeaderField_def onHeaderValue_def onBody_def
      onMessageComplete_def Let_def rbind_eq_Inr_iff\<close>)

lemma runEvents_streaming:
  assumes "runEvents evs p = (p', None)"
  shows "isStreaming p' = isStreaming p
       \<and> responseStream p' = responseStream p @ (if isStreaming p then writesOf evs else [])
       \<and> body p' = body p @ (if isStreaming p then [] else bodyOf evs)"
  using assms
proof (induction evs arbitrary: p)
  case Nil
  then show ?case by simp
next
  case (Cons e evs)
  then obtain q where q: "applyEvent e p = Inr q" and r: "runEvents evs q = (p', None)"
    by (auto split: sum.splits)
  have w: "writesOf (e # evs) = writesOf [e] @ writesOf evs" "bodyOf (e # evs) = bodyOf [e] @ bodyOf evs"
    by (cases e; simp)+
  from Cons.IH [OF r] applyEvent_streaming [OF q] show ?case
    unfolding w by simp
qed

lemma runEvents_only_writes:
  assumes "runEvents evs p = (p', err)"
  shows "isStreaming p' = isStreaming p
       \<and> (\<exists>ws. list_all isWrite ws \<and> responseStream p' = responseStream p @ ws)"
proof -
  let ?P = "\<lambda>q. isStreaming q = isStreaming p
       \<and> (\<exists>ws. list_all isWrite ws \<and> responseStream q = responseStream p @ ws)"
  have "?P p'"
  proof (rule runEvents_invariant [OF assms, where P = ?P])
    show "?P p" by simp
  next
    fix e q q'
    assume q: "?P q" and a: "applyEvent e q = Inr q'"
    then obtain ws where ws: "list_all isWrite ws" "responseStream q = responseStream p @ ws"
      by auto
    from applyEvent_streaming [OF a] ws
    have "responseStream q' = responseStream p @ (ws @ (if isStreaming q then writesOf [e] else []))"
      by simp
    moreover have "list_all isWrite (ws @ (if isStreaming q then writesOf [e] else []))"
      using ws by simp
    ultimately show "?P q'"
      using applyEvent_streaming [OF a] q by blast
  qed
  then show ?thesis .
qed

section \<open>One call of the library\<close>

lemma execute_None:
  assumes "http_parser_execute lib p buffer = (nread, p', None)"
  shows "runEvents (libEvents lib p buffer) (p\<lparr>parserLib := snd (snd (lib (parserLib p) buffer))\<rparr>)
           = (p', None)
       \<and> nread = fst (snd (lib (parserLib p) buffer))"
  using assms by (auto simp: http_parser_execute_def libEvents_def split: prod.splits)

lemma execute_streaming:
  assumes "http_parser_execute lib p buffer = (nread, p', None)"
  shows "isStreaming p' = isStreaming p
       \<and> responseStream p' =
           responseStream p @ (if isStreaming p then writesOf (libEvents lib p buffer) else [])
       \<and> body p' = body p @ (if isStreaming p then [] else bodyOf (libEvents lib p buffer))"
  using runEvents_streaming [of "libEvents lib p buffer"
      "p\<lparr>parserLib := snd (snd (lib (parserLib p) buffer))\<rparr>" p'] execute_None [OF assms]
  by simp

lemma execute_only_writes:
  assumes "http_parser_execute lib p buffer = (nread, p', err)"
  shows "isStreaming p' = isStreaming p
       \<and> (\<exists>ws. list_all isWrite ws \<and> responseStream p' = responseStream p @ ws)"
proof -
  obtain evs n l' where l: "lib (parserLib p) buffer = (evs, n, l')"
    by (cases "lib (parserLib p) buffer") auto
  with assms have "runEvents evs (p\<lparr>parserLib := l'\<rparr>) = (p', err)"
    by (auto simp: http_parser_execute_def split: prod.splits)
  from runEvents_only_writes [OF this] show ?thesis by simp
qed

section \<open>Lemmas on readResponse\<close>

lemma readResponseStep_eof: "readResponseStep lib p [] \<noteq> Inr (Again p')"
  by (auto simp: readResponseStep_def Let_def split: prod.splits option.splits)

lemma readResponseStep_Again:
  assumes "readResponseStep lib p buffer = Inr (Again p')" and "\<not> isStreaming p"
  shows "\<not> isStreaming p' \<and> \<not> upgrade p' \<and> \<not> messageComplete p' \<and> buffer \<noteq> []
       \<and> responseStream p' = responseStream p
       \<and> body p' = body p @ bodyOf (libEvents lib p buffer)"
proof -
  from assms(1) obtain n where e: "http_parser_execute lib p buffer = (n, p', None)"
    and r: "\<not> upgrade p'" "\<not> messageComplete p'" "buffer \<noteq> []"
    by (auto simp: readResponseStep_def Let_def split: prod.splits option.splits if_splits)
  from execute_streaming [OF e] assms(2) r show ?thesis by simp
qed

lemma readResponseStep_Return:
  assumes "readResponseStep lib p buffer = Inr (Return r p')" and "\<not> isStreaming p"
  shows "(if upgrade p' then \<exists>n \<le> length buffer. r = drop n buffer
          else r = [] \<and> headersComplete p')
       \<and> (isStreaming p' \<longrightarrow> \<not> upgrade p' \<and> \<not> messageComplete p' \<and> status_code p' div 100 = 2)
       \<and> responseStream p' = responseStream p
       \<and> body p' = body p @ bodyOf (libEvents lib p buffer)"
proof -
  from assms(1) obtain n q where e: "http_parser_execute lib p buffer = (n, q, None)"
    and q: "p' = q \<or> p' = q\<lparr>isStreaming := True\<rparr>"
    by (auto simp: readResponseStep_def Let_def split: prod.splits option.splits if_splits)
  from execute_streaming [OF e] assms(2) have s: "\<not> isStreaming q"
    "responseStream q = responseStream p" "body q = body p @ bodyOf (libEvents lib p buffer)"
    by simp_all
  from assms(1) e s(1) have
    "(if upgrade p' then \<exists>n \<le> length buffer. r = drop n buffer else r = [] \<and> headersComplete p')
       \<and> (isStreaming p' \<longrightarrow> \<not> upgrade p' \<and> \<not> messageComplete p' \<and> status_code p' div 100 = 2)"
    by (auto simp: readResponseStep_def Let_def split: if_splits)
  with q s show ?thesis by auto
qed

lemma writesOf_append [simp]: "writesOf (es @ fs) = writesOf es @ writesOf fs"
  by (induction es rule: writesOf.induct) simp_all

lemma bodyOf_append [simp]: "bodyOf (es @ fs) = bodyOf es @ bodyOf fs"
  by (induction es rule: bodyOf.induct) simp_all

lemma sentData_append [simp]: "sentData (a @ b) = sentData a @ sentData b"
  by (simp add: sentData_def)

lemma sentData_writesOf [simp]: "sentData (writesOf es) = bodyOf es"
  by (induction es rule: writesOf.induct) (simp_all add: sentData_def)

lemma sentData_simps [simp]:
  "sentData [] = []" "sentData (WriteCall d # cs) = d @ sentData cs" "sentData (DoneCall # cs) = sentData cs"
  by (simp_all add: sentData_def)

lemma readResponse_result:
  assumes "readResponse lib p chunks = Inr (r, p', rest)" and "\<not> isStreaming p"
  shows "(if upgrade p' then r = [] \<or> (\<exists>c \<in> set chunks. \<exists>n \<le> length c. r = drop n c)
          else r = [] \<and> headersComplete p')
       \<and> (isStreaming p' \<longrightarrow> \<not> upgrade p' \<and> \<not> messageComplete p' \<and> status_code p' div 100 = 2)
       \<and> responseStream p' = responseStream p
       \<and> body p' = body p @ bodyOf (readEvents lib p chunks)
       \<and> (\<exists>used. chunks = used @ rest)"
  using assms
proof (induction chunks arbitrary: p)
  case Nil
  then obtain q where "readResponseStep lib p [] = Inr (Return r q)" and "p' = q" "rest = []"
    using readResponseStep_eof [of lib p]
    by (auto split: sum.splits ReadStep.splits)
  with readResponseStep_Return [of lib p "[]" r p'] Nil.prems(2) show ?case
    by (auto split: if_splits)
next
  case (Cons c cs)
  show ?case
  proof (cases "readResponseStep lib p c")
    case (Inl e)
    with Cons.prems show ?thesis by simp
  next
    case (Inr st)
    show ?thesis
    proof (cases st)
      case (Return r' q)
      with Inr Cons.prems have eq: "r' = r" "q = p'" "rest = cs" by simp_all
      from readResponseStep_Return [of lib p c r p'] Inr Return eq Cons.prems(2)
      show ?thesis by (auto split: if_splits)
    next
      case (Again q)
      with Inr Cons.prems have rec: "readResponse lib q cs = Inr (r, p', rest)" by simp
      from readResponseStep_Again [of lib p c q] Inr Again Cons.prems(2)
      have q: "\<not> isStreaming q" "responseStream q = responseStream p"
        "body q = body p @ bodyOf (libEvents lib p c)"
        by simp_all
      from Cons.IH [OF rec q(1)] q(2,3) Inr Again show ?thesis
        by (auto split: if_splits)
    qed
  qed
qed

section \<open>Lemmas on the pump\<close>

lemma pumpStep_eof: "pumpStep lib p [] \<noteq> More p'"
  by (auto simp: pumpStep_def split: prod.splits option.splits)

lemma pumpStep_Failed:
  assumes "pumpStep lib p buffer = Failed err p'"
  shows "isStreaming p' = isStreaming p
       \<and> (\<exists>ws. list_all isWrite ws \<and> responseStream p' = responseStream p @ ws)"
proof -
  from assms obtain n e where "http_parser_execute lib p buffer = (n, p', e)"
    by (auto simp: pumpStep_def split: prod.splits option.splits if_splits)
  from execute_only_writes [OF this] show ?thesis .
qed

lemma pumpStep_More:
  assumes "pumpStep lib p buffer = More p'" and "isStreaming p"
  shows "isStreaming p' \<and> responseStream p' = responseStream p @ writesOf (libEvents lib p buffer)"
proof -
  from assms(1) obtain n where "http_parser_execute lib p buffer = (n, p', None)"
    by (auto simp: pumpStep_def split: prod.splits option.splits if_splits)
  from execute_streaming [OF this] assms(2) show ?thesis by simp
qed

lemma pumpStep_Finished:
  assumes "pumpStep lib p buffer = Finished p'" and "isStreaming p"
  shows "isStreaming p'
       \<and> responseStream p' = responseStream p @ writesOf (libEvents lib p buffer) @ [DoneCall]"
proof -
  from assms(1) obtain n q where e: "http_parser_execute lib p buffer = (n, q, None)"
    and p': "p' = q\<lparr>responseStream := responseStream q @ [DoneCall]\<rparr>"
    by (auto simp: pumpStep_def split: prod.splits option.splits if_splits)
  from execute_streaming [OF e] assms(2) p' show ?thesis by simp
qed

lemma pumpStreamInternal_done:
  assumes "pumpStreamInternal lib p chunks = (p', None)" and "isStreaming p"
  shows "responseStream p' = responseStream p @ writesOf (pumpEvents lib p chunks) @ [DoneCall]"
  using assms
proof (induction chunks arbitrary: p)
  case Nil
  then have "pumpStep lib p [] = Finished p'"
    using pumpStep_eof [of lib p] by (auto split: PumpStep.splits)
  from pumpStep_Finished [OF this Nil.prems(2)] show ?case by simp
next
  case (Cons c cs)
  show ?case
  proof (cases "pumpStep lib p c")
    case (Failed e q)
    with Cons.prems show ?thesis by simp
  next
    case (Finished q)
    with Cons.prems have "q = p'" by simp
    with pumpStep_Finished [OF Finished Cons.prems(2)] Finished show ?thesis by simp
  next
    case (More q)
    with Cons.prems have rec: "pumpStreamInternal lib q cs = (p', None)" by simp
    from pumpStep_More [OF More Cons.prems(2)] Cons.IH [OF rec] More show ?thesis by simp
  qed
qed

lemma pumpStreamInternal_failed:
  assumes "pumpStreamInternal lib p chunks = (p', Some err)"
  shows "\<exists>ws. list_all isWrite ws \<and> responseStream p' = responseStream p @ ws"
  using assms
proof (induction chunks arbitrary: p)
  case Nil
  then have "pumpStep lib p [] = Failed err p'"
    by (auto split: PumpStep.splits)
  from pumpStep_Failed [OF this] show ?case by simp
next
  case (Cons c cs)
  show ?case
  proof (cases "pumpStep lib p c")
    case (Failed e q)
    with Cons.prems have "q = p'" by simp
    with pumpStep_Failed [OF Failed] show ?thesis by simp
  next
    case (Finished q)
    with Cons.prems show ?thesis by simp
  next
    case (More q)
    with Cons.prems have rec: "pumpStreamInternal lib q cs = (p', Some err)" by simp
    from Cons.IH [OF rec] obtain ws where ws: "list_all isWrite ws"
      "responseStream p' = responseStream q @ ws" by auto
    obtain n where "http_parser_execute lib p c = (n, q, None)"
      using More by (auto simp: pumpStep_def split: prod.splits option.splits if_splits)
    from execute_only_writes [OF this] obtain vs where "list_all isWrite vs"
      "responseStream q = responseStream p @ vs" by auto
    with ws have "list_all isWrite (vs @ ws) \<and> responseStream p' = responseStream p @ (vs @ ws)"
      by simp
    then show ?thesis by blast
  qed
qed

lemma addHeaders_cookies_ok:
  "addHeaders p hs = Inr q \<Longrightarrow> list_all (\<lambda>v. isOk (parseCookie v)) (valuesOf ''set-cookie'' hs)"
proof (induction hs arbitrary: p)
  case Nil
  then show ?case by simp
next
  case (Cons h hs)
  then obtain p1 where h: "addHeader p h = Inr p1" and r: "addHeaders p1 hs = Inr q"
    by (auto simp: rbind_eq_Inr_iff)
  have "isOk (parseCookie (rawValue h))" if "toLower (rawName h) = ''set-cookie''"
    using h addHeader_cookie [OF that, of p] by (auto simp: rbind_eq_Inr_iff isOk_iff)
  with Cons.IH [OF r] show ?case by simp
qed

lemma onHeadersComplete_total:
  assumes "status_code p \<ge> 100"
    and "list_all (\<lambda>v. isOk (parseCookie v)) (valuesOf ''set-cookie'' (rawHeaders p))"
  shows "\<exists>p'. onHeadersComplete p = Inr p'"
proof -
  from addHeaders_total [OF assms(2)] obtain q where q: "addHeaders p (rawHeaders p) = Inr q" ..
  from addHeaders_frame [OF q] have "status_code q = status_code p"
    by (simp add: sameButHeaders_def)
  with q assms(1) show ?thesis by (simp add: onHeadersComplete_def)
qed

lemma onHeadersComplete_Inl:
  assumes "onHeadersComplete p = Inl e"
  shows "(status_code p < 100 \<and> e = StatusBelow100 (status_code p))
       \<or> (\<exists>v \<in> set (valuesOf ''set-cookie'' (rawHeaders p)). parseCookie v = Inl e)"
proof (cases "addHeaders p (rawHeaders p)")
  case (Inl x)
  with assms have "x = e" by (simp add: onHeadersComplete_def)
  with addHeaders_Inl [of p "rawHeaders p" e] Inl show ?thesis by simp
next
  case (Inr q)
  from addHeaders_frame [OF Inr] have "status_code q = status_code p"
    by (simp add: sameButHeaders_def)
  with Inr assms show ?thesis by (simp add: onHeadersComplete_def split: if_splits)
qed

lemma applyEvent_rawInv:
  assumes "applyEvent e p = Inr p'" and "rawInv p"
  shows "rawInv p'"
proof (cases e)
  case (OnHeaderField nm)
  with assms onHeaderField_rawInv [OF assms(2), of nm] show ?thesis by auto
next
  case (OnHeaderValue v)
  with assms show ?thesis
    by (auto simp: onHeaderValue_def rbind_eq_Inr_iff updateLast_def rawInv_def split: if_splits)
next
  case OnHeadersComplete
  with assms obtain q where "addHeaders p (rawHeaders p) = Inr q"
    and "p' = q\<lparr>statusString := rawStatusString p, headersComplete := True\<rparr>"
    using onHeadersComplete_Inr [of p p'] by auto
  with addHeaders_frame [of p "rawHeaders p" q] assms(2) show ?thesis
    by (simp add: sameButHeaders_def rawInv_def)
qed (use assms in \<open>auto simp: rawInv_def onStatus_def onBody_def onMessageComplete_def
      split: if_splits\<close>)

lemma applyEvent_hdrInv:
  assumes "applyEvent e p = Inr p'" and "hdrInv p"
  shows "hdrInv p'"
proof (cases e)
  case OnHeadersComplete
  with assms obtain q where q: "addHeaders p (rawHeaders p) = Inr q"
    and "p' = q\<lparr>statusString := rawStatusString p, headersComplete := True\<rparr>"
    using onHeadersComplete_Inr [of p p'] by auto
  with addHeaders_hdrInv [OF q assms(2)] show ?thesis by (simp add: hdrInv_def)
qed (use assms in \<open>auto simp: hdrInv_def onStatus_def onBody_def onMessageComplete_def
      onHeaderField_def onHeaderValue_def Let_def rbind_eq_Inr_iff split: if_splits\<close>)

lemma flushBody_simps [simp]:
  "isStreaming (flushBody p) = isStreaming p"
  "responseStream (flushBody p) = responseStream p @ (if body p \<noteq> [] then [WriteCall (body p)] else [])"
  "sentData (responseStream (flushBody p)) = sentData (responseStream p) @ body p"
  by (simp_all add: flushBody_def)

lemma runEvents_new_invariants:
  assumes "runEvents evs (newHttpParser l) = (p', err)"
  shows "rawInv p' \<and> hdrInv p'"
proof (rule runEvents_invariant [OF assms, where P = "\<lambda>q. rawInv q \<and> hdrInv q"])
  show "rawInv (newHttpParser l) \<and> hdrInv (newHttpParser l)"
    by (simp add: rawInv_def)
qed (auto dest: applyEvent_rawInv applyEvent_hdrInv)

lemma applyEvent_OutOfBounds:
  assumes "applyEvent e p = Inl OutOfBounds" and "rawInv p"
  shows "rawHeaders p = []"
proof (cases e)
  case (OnHeaderField nm)
  with assms onHeaderField_rawInv [OF assms(2), of nm] show ?thesis by auto
next
  case (OnHeaderValue v)
  with assms show ?thesis
    by (auto simp: onHeaderValue_def updateLast_def rbind_eq_Inl_iff split: if_splits)
next
  case OnHeadersComplete
  with assms onHeadersComplete_Inl [of p OutOfBounds] show ?thesis
    by (auto dest: parseCookie_Inl)
qed (use assms in auto)

lemma runEvents_OutOfBounds:
  assumes "runEvents evs p = (p', Some OutOfBounds)" and "rawInv p"
  shows "rawHeaders p' = []"
  using assms
proof (induction evs arbitrary: p)
  case Nil
  then show ?case by simp
next
  case (Cons e evs)
  show ?case
  proof (cases "applyEvent e p")
    case (Inl x)
    with Cons.prems applyEvent_OutOfBounds [of e p] show ?thesis by auto
  next
    case (Inr q)
    with Cons.prems have "runEvents evs q = (p', Some OutOfBounds)" by simp
    from Cons.IH [OF this applyEvent_rawInv [OF Inr Cons.prems(2)]] show ?thesis .
  qed
qed

section \<open>A scripted library\<close>

lemmas parser_eval = newHttpParser_def onStatus_def onHeaderField_def onHeaderValue_def
  updateLast_def onHeadersComplete_def addHeader_def onBody_def onMessageComplete_def
  http_parser_execute_def scriptedLib_def readResponseStep_def pumpStep_def pumpStream_def
  flushBody_def
  findHeader_def Let_def char_eval

lemma runEvents_helloEvents:
  "runEvents helloEvents (newHttpParser l) =
     ((newHttpParser l)\<lparr>status_code := 200, rawStatusString := ''OK'', statusString := ''OK'',
        rawHeaders := [\<lparr>rawName = ''Content-Type'', rawValue = ''text/plain''\<rparr>,
                       \<lparr>rawName = ''Vary'', rawValue = ''Accept''\<rparr>,
                       \<lparr>rawName = ''vary'', rawValue = ''Cookie''\<rparr>],
        lastHeaderElement := VALUE,
        headers := [''content-type'' \<mapsto> \<lparr>headerName = ''content-type'', headerValue = ''text/plain''\<rparr>,
                    ''vary'' \<mapsto> \<lparr>headerName = ''vary'', headerValue = ''Accept, Cookie''\<rparr>],
        headersComplete := True, body := ''hel''\<rparr>, None)"
  by (simp add: helloEvents_def parser_eval)

lemma parseCookie_ab:
  "parseCookie ''a=b'' = Inr (newCookie\<lparr>cookieName := ''a'', cookieValue := ''b''\<rparr>)"
  using parseCookie_first [of "''a''" "''b''"] by (simp add: trim_def trimArray_def char_eval)

lemma onHeadersComplete_varyParser:
  "onHeadersComplete varyParser =
     Inr (varyParser\<lparr>
        headers := [''vary'' \<mapsto> \<lparr>headerName = ''vary'', headerValue = ''Accept, Cookie''\<rparr>],
        cookies := [newCookie\<lparr>cookieName := ''a'', cookieValue := ''b''\<rparr>],
        headersComplete := True\<rparr>)"
  by (simp add: varyParser_def parser_eval parseCookie_ab)

section \<open>The errors of reading\<close>

lemma applyEvent_readError: "applyEvent ev p = Inl e \<Longrightarrow> readError e"
proof (cases ev)
  case OnHeadersComplete
  assume "applyEvent ev p = Inl e"
  with OnHeadersComplete onHeadersComplete_Inl [of p e] show ?thesis
    by (auto dest: parseCookie_Inl)
qed (auto simp: onHeaderField_def onHeaderValue_def updateLast_def rbind_eq_Inl_iff Let_def
      split: if_splits)

lemma runEvents_readError: "runEvents evs p = (p', Some e) \<Longrightarrow> readError e"
proof (induction evs arbitrary: p)
  case Nil
  then show ?case by simp
next
  case (Cons ev evs)
  then show ?case
    by (cases "applyEvent ev p") (auto dest: applyEvent_readError)
qed

lemma readResponseStep_readError: "readResponseStep lib p buffer = Inl e \<Longrightarrow> readError e"
  by (auto simp: readResponseStep_def http_parser_execute_def Let_def dest: runEvents_readError
      split: prod.splits option.splits if_splits)

lemma readResponse_readError: "readResponse lib p chunks = Inl e \<Longrightarrow> readError e"
proof (induction chunks arbitrary: p)
  case Nil
  then show ?case
    by (auto dest: readResponseStep_readError split: sum.splits ReadStep.splits)
next
  case (Cons c cs)
  then show ?case
    by (auto dest: readResponseStep_readError split: sum.splits ReadStep.splits)
qed

section \<open>Properties\<close>

text \<open>
  C13.  Headers are grouped the same however the library cuts them: if every
  header arrives as one or more pieces of its name followed by one or more
  pieces of its value, then after the callbacks the list of raw headers has
  grown by exactly these headers, in order, each with its pieces joined, and
  no callback failed.
\<close>

theorem raw_headers_grouped:
  assumes "fragmented hs" and "lastHeaderElement p \<noteq> FIELD" and "hs \<noteq> []"
  shows "runEvents (fragmentEvents hs) p =
           (p\<lparr>rawHeaders := rawHeaders p @ map rawOf hs, lastHeaderElement := VALUE\<rparr>, None)"
  using runEvents_fragments [OF assms(1,2)] assms(3) by simp

theorem raw_headers_grouped_witness:
  "fragmented [([''Content-'', ''Type''], [''text/'', ''plain'']), ([''Vary''], [''Accept''])]
   \<and> rawHeaders (fst (runEvents
         [OnHeaderField ''Content-'', OnHeaderField ''Type'', OnHeaderValue ''text/'',
          OnHeaderValue ''plain'', OnHeaderField ''Vary'', OnHeaderValue ''Accept'']
         (newHttpParser ()))) =
       [\<lparr>rawName = ''Content-Type'', rawValue = ''text/plain''\<rparr>,
        \<lparr>rawName = ''Vary'', rawValue = ''Accept''\<rparr>]"
  using raw_headers_grouped [of "[([''Content-'', ''Type''], [''text/'', ''plain'']), ([''Vary''], [''Accept''])]"
      "newHttpParser ()"]
  by (simp add: fragmented_def fragmentEvents_def rawOf_def newHttpParser_def)

text \<open>
  C3.  Header folding.  When the headers are complete, the value found for a
  header name (other than the empty name and \<^verbatim>\<open>set-cookie\<close>) is what was there
  before followed by the values of the raw headers of that name, compared
  without case, joined by a comma and a space in the order they arrived; the
  cookies are the parsed \<^verbatim>\<open>Set-Cookie\<close> values in order; the status text is
  the pieces collected; and the headers are marked complete.
\<close>

theorem headers_folded:
  assumes "onHeadersComplete p = Inr p'" and "hdrInv p" and "nm \<noteq> []" and "nm \<noteq> ''set-cookie''"
  shows "findHeader p' nm = folded (findHeader p nm) (valuesOf nm (rawHeaders p))
       \<and> map Inr (cookies p') =
           map Inr (cookies p) @ map parseCookie (valuesOf ''set-cookie'' (rawHeaders p))
       \<and> statusString p' = rawStatusString p \<and> headersComplete p'"
proof -
  from onHeadersComplete_Inr [OF assms(1)] obtain q
    where q: "addHeaders p (rawHeaders p) = Inr q"
      and p': "p' = q\<lparr>statusString := rawStatusString p, headersComplete := True\<rparr>"
    by auto
  from addHeaders_findHeader [OF q assms(2,3,4)] addHeaders_cookies [OF q] p'
  show ?thesis by (simp add: findHeader_def)
qed

theorem headers_folded_witness:
  "hdrInv varyParser
   \<and> (\<exists>p'. onHeadersComplete varyParser = Inr p'
         \<and> findHeader p' ''vary'' = Some ''Accept, Cookie''
         \<and> map cookieName (cookies p') = [''a''])"
proof -
  have h: "hdrInv varyParser" by (simp add: hdrInv_def varyParser_def newHttpParser_def)
  have v: "valuesOf ''vary'' (rawHeaders varyParser) = [''Accept'', ''Cookie'']"
    by (simp add: varyParser_def char_eval)
  have f: "findHeader varyParser ''vary'' = None"
    by (simp add: varyParser_def findHeader_def newHttpParser_def)
  from headers_folded [OF onHeadersComplete_varyParser h, of "''vary''"]
  show ?thesis
    by (simp add: h v f folded_def onHeadersComplete_varyParser newCookie_def)
qed

text \<open>
  C26.  Completing the headers succeeds exactly when the status code is at
  least 100 and every \<^verbatim>\<open>Set-Cookie\<close> value is a readable cookie; when it
  fails, the error is the status-code assertion or the error of one of the
  cookies.
\<close>

theorem onHeadersComplete_succeeds_iff:
  "(isOk (onHeadersComplete p) \<longleftrightarrow>
      status_code p \<ge> 100
      \<and> list_all (\<lambda>v. isOk (parseCookie v)) (valuesOf ''set-cookie'' (rawHeaders p)))
   \<and> (\<forall>e. onHeadersComplete p = Inl e \<longrightarrow>
         (status_code p < 100 \<and> e = StatusBelow100 (status_code p))
         \<or> (\<exists>v \<in> set (valuesOf ''set-cookie'' (rawHeaders p)). parseCookie v = Inl e))"
proof -
  have "isOk (onHeadersComplete p)"
    if "status_code p \<ge> 100"
      "list_all (\<lambda>v. isOk (parseCookie v)) (valuesOf ''set-cookie'' (rawHeaders p))"
    using onHeadersComplete_total [OF that] by (auto simp: isOk_iff)
  moreover have "status_code p \<ge> 100
      \<and> list_all (\<lambda>v. isOk (parseCookie v)) (valuesOf ''set-cookie'' (rawHeaders p))"
    if "isOk (onHeadersComplete p)"
  proof -
    from that obtain p' where p': "onHeadersComplete p = Inr p'" by (auto simp: isOk_iff)
    from onHeadersComplete_Inr [OF p'] obtain q where q: "addHeaders p (rawHeaders p) = Inr q"
      and c: "status_code p \<ge> 100" by auto
    from addHeaders_cookies_ok [OF q] c show ?thesis by simp
  qed
  ultimately have "isOk (onHeadersComplete p) \<longleftrightarrow>
      status_code p \<ge> 100
      \<and> list_all (\<lambda>v. isOk (parseCookie v)) (valuesOf ''set-cookie'' (rawHeaders p))"
    by (rule iffI [rotated]) simp_all
  then show ?thesis using onHeadersComplete_Inl [of p] by simp
qed

theorem onHeadersComplete_succeeds_iff_witness:
  "onHeadersComplete ((newHttpParser ())\<lparr>status_code := 99\<rparr>) = Inl (StatusBelow100 99)
   \<and> onHeadersComplete ((newHttpParser ())\<lparr>status_code := 200,
          rawHeaders := [\<lparr>rawName = ''Set-Cookie'', rawValue = ''novalue''\<rparr>]\<rparr>)
       = Inl (InvalidCookie ''novalue'')"
proof -
  have "parseCookie ''novalue'' = Inl (InvalidCookie ''novalue'')"
    by (rule parseCookie_no_equals) simp
  then show ?thesis
    using onHeadersComplete_succeeds_iff [of "(newHttpParser ())\<lparr>status_code := 99\<rparr>"]
    by (simp add: parser_eval)
qed

text \<open>
  C9.  What \<^verbatim>\<open>readResponse\<close> returns.  Started on a parser that is not yet
  streaming, a successful call leaves one of three situations: the response
  is an upgrade and the bytes returned are the unread rest of the last chunk;
  or the headers are complete and nothing is returned; and streaming is
  switched on only for a 2xx response whose message is not complete.  Until
  then nothing was written to the response stream, the body collected is
  every body piece the library reported, and the chunks left are a suffix of
  the chunks given.
\<close>

theorem readResponse_outcome:
  assumes "readResponse lib p chunks = Inr (r, p', rest)" and "\<not> isStreaming p"
  shows "(if upgrade p' then r = [] \<or> (\<exists>c \<in> set chunks. \<exists>n \<le> length c. r = drop n c)
          else r = [] \<and> headersComplete p')
       \<and> (isStreaming p' \<longrightarrow> \<not> upgrade p' \<and> \<not> messageComplete p' \<and> status_code p' div 100 = 2)
       \<and> responseStream p' = responseStream p
       \<and> body p' = body p @ bodyOf (readEvents lib p chunks)
       \<and> (\<exists>used. chunks = used @ rest)"
  using assms by (rule readResponse_result)

theorem readResponse_outcome_witness:
  "\<exists>p'. readResponse scriptedLib (newHttpParser [helloEvents, [OnBody ''lo'', OnMessageComplete]])
           [''HTTP/1.1 200 OK...'', ''lo''] = Inr ([], p', [''lo''])
     \<and> isStreaming p' \<and> body p' = ''hel'' \<and> status_code p' = 200
     \<and> findHeader p' ''vary'' = Some ''Accept, Cookie''"
proof -
  let ?p = "newHttpParser [helloEvents, [OnBody ''lo'', OnMessageComplete]]"
  let ?p' = "(fst (runEvents helloEvents (newHttpParser [[OnBody ''lo'', OnMessageComplete]])))
               \<lparr>isStreaming := True\<rparr>"
  have r: "readResponse scriptedLib ?p [''HTTP/1.1 200 OK...'', ''lo''] = Inr ([], ?p', [''lo''])"
    by (simp add: readResponseStep_def http_parser_execute_def scriptedLib_def
        runEvents_helloEvents)
  have "isStreaming ?p' \<and> body ?p' = ''hel'' \<and> status_code ?p' = 200
     \<and> findHeader ?p' ''vary'' = Some ''Accept, Cookie''"
    by (simp add: runEvents_helloEvents findHeader_def)
  with r show ?thesis using readResponse_outcome [OF r] by blast
qed

text \<open>
  C8.  The end of a streamed body is signalled exactly once and last.  When
  the pump ends without error, the calls it made on the response stream are
  one write per body piece the library reported, in order, followed by one
  \<^verbatim>\<open>done\<close>; when it ends with an error (which is only logged) it made writes
  only and no \<^verbatim>\<open>done\<close>.  \<^verbatim>\<open>pumpStream\<close> first writes the body collected so
  far, if any, and does nothing at all when the response is not streaming.
\<close>

theorem pumpStream_done_once:
  "(isStreaming p \<and> pumpStream lib p chunks = (p', None) \<longrightarrow>
      (\<exists>ws. list_all isWrite ws \<and> responseStream p' = responseStream p @ ws @ [DoneCall])
      \<and> sentData (responseStream p') =
          sentData (responseStream p) @ body p @ bodyOf (pumpEvents lib (flushBody p) chunks))
   \<and> (pumpStream lib p chunks = (p', Some err) \<longrightarrow>
      (\<exists>ws. list_all isWrite ws \<and> responseStream p' = responseStream p @ ws))
   \<and> (\<not> isStreaming p \<longrightarrow> pumpStream lib p chunks = (p, None))"
proof -
  let ?b = "if body p \<noteq> [] then [WriteCall (body p)] else []"
  have "responseStream p' =
          responseStream p @ (?b @ writesOf (pumpEvents lib (flushBody p) chunks)) @ [DoneCall]"
    if "isStreaming p" "pumpStream lib p chunks = (p', None)"
    using pumpStreamInternal_done [of lib "flushBody p" chunks p'] that by (simp add: pumpStream_def)
  moreover have "list_all isWrite (?b @ writesOf (pumpEvents lib (flushBody p) chunks))"
    by simp
  moreover have "\<exists>ws. list_all isWrite ws \<and> responseStream p' = responseStream p @ ws"
    if "pumpStream lib p chunks = (p', Some err)"
  proof -
    from that have "pumpStreamInternal lib (flushBody p) chunks = (p', Some err)"
      by (simp add: pumpStream_def split: if_splits)
    from pumpStreamInternal_failed [OF this] obtain ws where
      "list_all isWrite ws" "responseStream p' = responseStream (flushBody p) @ ws" by auto
    then have "list_all isWrite (?b @ ws) \<and> responseStream p' = responseStream p @ (?b @ ws)"
      by simp
    then show ?thesis by blast
  qed
  ultimately show ?thesis
    by (auto simp: pumpStream_def)
qed

theorem pumpStream_done_once_witness:
  "\<exists>p'. pumpStream scriptedLib
       ((newHttpParser [[OnBody ''lo''], [OnBody ''!'', OnMessageComplete]])
          \<lparr>isStreaming := True, body := ''hel''\<rparr>) [''lo'', ''!''] = (p', None)
     \<and> responseStream p' = [WriteCall ''hel'', WriteCall ''lo'', WriteCall ''!'', DoneCall]"
proof -
  let ?p = "(newHttpParser [[OnBody ''lo''], [OnBody ''!'', OnMessageComplete]])
          \<lparr>isStreaming := True, body := ''hel''\<rparr>"
  have "\<exists>p'. pumpStream scriptedLib ?p [''lo'', ''!''] = (p', None)
          \<and> responseStream p' = [WriteCall ''hel'', WriteCall ''lo'', WriteCall ''!'', DoneCall]"
    by (simp add: parser_eval)
  then show ?thesis
    using pumpStream_done_once [of ?p scriptedLib "[''lo'', ''!'']"] by blast
qed

text \<open>
  C4.  No byte of a streamed body is lost, repeated or reordered between the
  two phases.  For a fresh parser, when \<^verbatim>\<open>readResponse\<close> switches to streaming
  and the pump then ends without error, the data written to the response
  stream, concatenated, is every body piece the library reported while the
  response was read followed by every piece it reported to the pump.
\<close>

theorem streamed_body_in_order:
  assumes "readResponse lib (newHttpParser l) chunks = Inr (r, p1, rest)"
    and "isStreaming p1" and "pumpStream lib p1 rest = (p2, None)"
  shows "sentData (responseStream p2) =
           bodyOf (readEvents lib (newHttpParser l) chunks)
             @ bodyOf (pumpEvents lib (flushBody p1) rest)
       \<and> (\<exists>ws. list_all isWrite ws \<and> responseStream p2 = ws @ [DoneCall])"
proof -
  from readResponse_result [OF assms(1)]
  have b: "body p1 = bodyOf (readEvents lib (newHttpParser l) chunks)" "responseStream p1 = []"
    by simp_all
  from assms(2,3) have i: "pumpStreamInternal lib (flushBody p1) rest = (p2, None)"
    by (simp add: pumpStream_def)
  from pumpStreamInternal_done [OF i] assms(2) b
  have s: "responseStream p2 =
      ((if body p1 \<noteq> [] then [WriteCall (body p1)] else [])
         @ writesOf (pumpEvents lib (flushBody p1) rest)) @ [DoneCall]"
    by simp
  have "list_all isWrite ((if body p1 \<noteq> [] then [WriteCall (body p1)] else [])
         @ writesOf (pumpEvents lib (flushBody p1) rest))"
    by simp
  with s have "\<exists>ws. list_all isWrite ws \<and> responseStream p2 = ws @ [DoneCall]" by blast
  moreover from s b have "sentData (responseStream p2) =
           bodyOf (readEvents lib (newHttpParser l) chunks)
             @ bodyOf (pumpEvents lib (flushBody p1) rest)"
    by simp
  ultimately show ?thesis by simp
qed

theorem streamed_body_in_order_witness:
  "\<exists>p1 p2. readResponse scriptedLib (newHttpParser [helloEvents, [OnBody ''lo'', OnMessageComplete]])
           [''HTTP/1.1 200 OK...'', ''lo''] = Inr ([], p1, [''lo''])
     \<and> isStreaming p1 \<and> pumpStream scriptedLib p1 [''lo''] = (p2, None)
     \<and> responseStream p2 = [WriteCall ''hel'', WriteCall ''lo'', DoneCall]
     \<and> sentData (responseStream p2) = ''hello''"
proof -
  let ?p = "newHttpParser [helloEvents, [OnBody ''lo'', OnMessageComplete]]"
  let ?p1 = "(fst (runEvents helloEvents (newHttpParser [[OnBody ''lo'', OnMessageComplete]])))
               \<lparr>isStreaming := True\<rparr>"
  have r: "readResponse scriptedLib ?p [''HTTP/1.1 200 OK...'', ''lo''] = Inr ([], ?p1, [''lo''])"
    by (simp add: readResponseStep_def http_parser_execute_def scriptedLib_def
        runEvents_helloEvents)
  have s: "isStreaming ?p1" by simp
  obtain p2 where p2: "pumpStream scriptedLib ?p1 [''lo''] = (p2, None)"
    and c: "responseStream p2 = [WriteCall ''hel'', WriteCall ''lo'', DoneCall]"
    by (simp add: runEvents_helloEvents pumpStream_def flushBody_def pumpStep_def
        http_parser_execute_def scriptedLib_def onBody_def onMessageComplete_def)
  from streamed_body_in_order [OF r s p2] c have "sentData (responseStream p2) = ''hello''"
    by simp
  with r s p2 c show ?thesis by blast
qed

text \<open>
  C27.  Whatever callbacks the library makes on a fresh parser, and whether or
  not one of them fails, the state reached is well formed: a header element
  was seen only if there is a raw header to extend, so a further piece of a
  header name is always accepted; a piece of a header value is refused
  exactly when no header name was ever reported; and every stored header is
  filed under its own name.
\<close>

theorem parser_state_well_formed:
  assumes "runEvents evs (newHttpParser l) = (p', err)"
  shows "rawInv p' \<and> hdrInv p'
       \<and> isOk (onHeaderField p' nm)
       \<and> (isOk (onHeaderValue p' v) \<longleftrightarrow> rawHeaders p' \<noteq> [])
       \<and> (err = Some OutOfBounds \<longrightarrow> rawHeaders p' = [])"
proof -
  from runEvents_new_invariants [OF assms] have i: "rawInv p'" "hdrInv p'" by simp_all
  from onHeaderField_rawInv [OF i(1), of nm] have f: "isOk (onHeaderField p' nm)"
    by (auto simp: isOk_iff)
  have v: "isOk (onHeaderValue p' v) \<longleftrightarrow> rawHeaders p' \<noteq> []"
    by (auto simp: onHeaderValue_def updateLast_def isOk_iff)
  have "rawHeaders p' = []" if "err = Some OutOfBounds"
    using runEvents_OutOfBounds [of evs "newHttpParser l" p'] assms that
    by (simp add: rawInv_def)
  with i f v show ?thesis by simp
qed

theorem parser_state_well_formed_witness:
  "runEvents [OnStatus ''OK'', OnHeaderValue ''x'', OnHeaderField ''A''] (newHttpParser ())
     = ((newHttpParser ())\<lparr>rawStatusString := ''OK''\<rparr>, Some OutOfBounds)
   \<and> isOk (onHeaderField ((newHttpParser ())\<lparr>rawStatusString := ''OK''\<rparr>) ''A'')"
proof -
  have r: "runEvents [OnStatus ''OK'', OnHeaderValue ''x'', OnHeaderField ''A''] (newHttpParser ())
     = ((newHttpParser ())\<lparr>rawStatusString := ''OK''\<rparr>, Some OutOfBounds)"
    by (simp add: onStatus_def onHeaderValue_def)
  from parser_state_well_formed [OF r] r show ?thesis by simp
qed

end
