(* ===== verification/Response_Build.thy ===== *)
theory Response_Build
  imports Http_Parser Status_Table ETag
begin

text \<open>
  The three methods of \<^verbatim>\<open>HttpParser\<close> that turn the parsed response into the
  result of the call: \<^verbatim>\<open>build\<close> (lines 222-370), \<^verbatim>\<open>buildForWebSocket\<close> (lines
  372-390) and \<^verbatim>\<open>buildOptions\<close> (lines 392-417).  The result structures are
  those of the session interface; they are outside the source file and are
  modelled as the fields the methods set, with the schema's defaults (empty
  text, absent struct, first union member) for the fields they leave alone.
  The table of status codes, a global of the program, is a parameter.
\<close>

section \<open>Results\<close>

datatype Expires = ExpiresNone | ExpiresAbsolute int | ExpiresRelative int

record WebCookie =
  webCookieName :: string
  webCookieValue :: string
  webCookiePath :: string
  webCookieExpires :: Expires
  webCookieHttpOnly :: bool

datatype Disposition = Normal | Download string

datatype Body = Bytes bytes | Stream

record Content =
  contentStatusCode :: nat
  contentEncoding :: string
  contentLanguage :: string
  contentMimeType :: string
  contentETag :: "ETag option"
  contentDisposition :: Disposition
  contentBody :: Body

datatype ResponseVariant =
    ContentResponse Content
  | NoContentResponse bool
  | PreconditionFailedResponse "ETag option"
  | RedirectResponse bool bool string
  | ClientErrorResponse nat string
  | ServerErrorResponse string

record Response =
  setCookies :: "WebCookie list"
  responseVariant :: ResponseVariant

record Options =
  davClass1 :: bool
  davClass2 :: bool
  davClass3 :: bool
  davExtensions :: "string list"

section \<open>build\<close>

definition buildCookie :: "Cookie \<Rightarrow> WebCookie" where
  "buildCookie c =
     \<lparr>webCookieName = cookieName c, webCookieValue = cookieValue c,
      webCookiePath = (if cookiePath c \<noteq> [] then cookiePath c else []),
      webCookieExpires =
        (case cookieExpirationType c of
           NONE_EXPIRATION \<Rightarrow> ExpiresNone
         | ABSOLUTE \<Rightarrow> ExpiresAbsolute (cookieExpires c)
         | RELATIVE \<Rightarrow> ExpiresRelative (cookieExpires c)),
      webCookieHttpOnly = cookieHttpOnly c\<rparr>"

fun unescapeFilename :: "string \<Rightarrow> string" where
  "unescapeFilename [] = []"
| "unescapeFilename (c # cs) =
     (if c = BACKSLASH then
        (case cs of [] \<Rightarrow> [] | d # ds \<Rightarrow> d # unescapeFilename ds)
      else c # unescapeFilename cs)"

definition parseFilename :: "string \<Rightarrow> string" where
  "parseFilename v =
     (let filename = trimArray v in
      if length filename \<ge> 2 \<and> hd filename = DQUOTE \<and> last filename = DQUOTE
      then unescapeFilename (take (length filename - 2) (drop 1 filename))
      else filename)"

definition dispositionParam :: "Disposition \<Rightarrow> string \<Rightarrow> Disposition" where
  "dispositionParam d part =
     (case splitFirst part (CHR ''='') of
        None \<Rightarrow> d
      | Some (nm, rest) \<Rightarrow> if trim nm = ''filename'' then Download (parseFilename rest) else d)"

definition parseDisposition :: "string \<Rightarrow> Disposition" where
  "parseDisposition disposition =
     (let parts = split disposition (CHR '';'') in
      if length parts > 1 \<and> trim (hd parts) = ''attachment''
      then foldl dispositionParam Normal (tl parts)
      else Normal)"

definition optETag :: "string option \<Rightarrow> ETag option result" where
  "optETag h = (case h of None \<Rightarrow> Inr None | Some etag \<Rightarrow> rbind (parseETag etag) (\<lambda>e. Inr (Some e)))"

definition buildContent :: "'l HttpParser \<Rightarrow> nat \<Rightarrow> Content result" where
  "buildContent p successCode =
     rbind (optETag (findHeader p ''etag'')) (\<lambda>etag.
       if isStreaming p \<and> body p \<noteq> [] then Inl BodyNotEmpty
       else Inr
         \<lparr>contentStatusCode = successCode,
          contentEncoding = (case findHeader p ''content-encoding'' of Some e \<Rightarrow> e | None \<Rightarrow> []),
          contentLanguage = (case findHeader p ''content-language'' of Some l \<Rightarrow> l | None \<Rightarrow> []),
          contentMimeType = (case findHeader p ''content-type'' of Some m \<Rightarrow> m | None \<Rightarrow> []),
          contentETag = etag,
          contentDisposition =
            (case findHeader p ''content-disposition'' of
               Some d \<Rightarrow> parseDisposition d | None \<Rightarrow> Normal),
          contentBody = (if isStreaming p then Stream else Bytes (body p))\<rparr>)"

definition buildVariant :: "'l HttpParser \<Rightarrow> HttpStatusInfo \<Rightarrow> ResponseVariant result" where
  "buildVariant p statusInfo =
     (case statusInfo of
        ContentInfo successCode \<Rightarrow> rbind (buildContent p successCode) (\<lambda>c. Inr (ContentResponse c))
      | NoContentInfo shouldResetForm \<Rightarrow> Inr (NoContentResponse shouldResetForm)
      | PreconditionFailedInfo \<Rightarrow>
          rbind (optETag (findHeader p ''etag'')) (\<lambda>e. Inr (PreconditionFailedResponse e))
      | RedirectInfo isPermanent switchToGet \<Rightarrow>
          (case findHeader p ''location'' of
             None \<Rightarrow> Inl (MissingLocation (status_code p))
           | Some location \<Rightarrow> Inr (RedirectResponse isPermanent switchToGet location))
      | ClientErrorInfo clientErrorCode \<Rightarrow> Inr (ClientErrorResponse clientErrorCode (body p))
      | ServerErrorInfo \<Rightarrow> Inr (ServerErrorResponse (body p)))"

definition build :: "StatusCodes \<Rightarrow> 'l HttpParser \<Rightarrow> Response result" where
  "build codes p =
     (if upgrade p then Inl UnexpectedUpgrade
      else rbind (statusInfoFor codes (status_code p) (statusString p)) (\<lambda>statusInfo.
           rbind (buildVariant p statusInfo) (\<lambda>v.
             Inr \<lparr>setCookies = map buildCookie (cookies p), responseVariant = v\<rparr>)))"

section \<open>buildForWebSocket and buildOptions\<close>

definition buildForWebSocket :: "'l HttpParser \<Rightarrow> string list result" where
  "buildForWebSocket p =
     (if status_code p \<noteq> 101 then Inl (NoWebSocket (status_code p))
      else Inr (case findHeader p ''sec-websocket-protocol'' of
                  None \<Rightarrow> []
                | Some protocol \<Rightarrow> map trim (split protocol (CHR '',''))))"

definition davLevel :: "Options \<Rightarrow> string \<Rightarrow> Options" where
  "davLevel opts level =
     (let trimmed = trim level in
      if trimmed = ''1'' then opts\<lparr>davClass1 := True\<rparr>
      else if trimmed = ''2'' then opts\<lparr>davClass2 := True\<rparr>
      else if trimmed = ''3'' then opts\<lparr>davClass3 := True\<rparr>
      else opts\<lparr>davExtensions := davExtensions opts @ [trimmed]\<rparr>)"

definition noOptions :: Options where
  "noOptions = \<lparr>davClass1 = False, davClass2 = False, davClass3 = False, davExtensions = []\<rparr>"

definition buildOptions :: "'l HttpParser \<Rightarrow> Options result" where
  "buildOptions p =
     (if upgrade p then Inl UnexpectedUpgrade
      else Inr (case findHeader p ''dav'' of
                  None \<Rightarrow> noOptions
                | Some dav \<Rightarrow> foldl davLevel noOptions (split dav (CHR '',''))))"

section \<open>Specification and fixtures\<close>

fun variantType :: "ResponseVariant \<Rightarrow> ResponseWhich" where
  "variantType (ContentResponse c) = CONTENT"
| "variantType (NoContentResponse r) = NO_CONTENT"
| "variantType (PreconditionFailedResponse e) = PRECONDITION_FAILED"
| "variantType (RedirectResponse p g l) = REDIRECT"
| "variantType (ClientErrorResponse c b) = CLIENT_ERROR"
| "variantType (ServerErrorResponse b) = SERVER_ERROR"

definition quoteFilename :: "string \<Rightarrow> string" where
  "quoteFilename f = DQUOTE # escapeETag f @ [DQUOTE]"

definition buildable :: "'l HttpParser \<Rightarrow> HttpStatusInfo \<Rightarrow> bool" where
  "buildable p info =
     ((statusType info \<in> {CONTENT, PRECONDITION_FAILED} \<longrightarrow>
         (case findHeader p ''etag'' of None \<Rightarrow> True | Some t \<Rightarrow> isOk (parseETag t)))
      \<and> (statusType info = REDIRECT \<longrightarrow> findHeader p ''location'' \<noteq> None)
      \<and> (statusType info = CONTENT \<longrightarrow> \<not> (isStreaming p \<and> body p \<noteq> [])))"

definition spaced :: "string list \<Rightarrow> string list" where
  "spaced ps = (case ps of [] \<Rightarrow> [] | q # qs \<Rightarrow> q # map ((#) (CHR '' '')) qs)"

definition davSpec :: "string list \<Rightarrow> Options" where
  "davSpec levels =
     \<lparr>davClass1 = (''1'' \<in> set levels), davClass2 = (''2'' \<in> set levels),
      davClass3 = (''3'' \<in> set levels),
      davExtensions = filter (\<lambda>t. t \<notin> {''1'', ''2'', ''3''}) levels\<rparr>"

definition mergeOptions :: "Options \<Rightarrow> Options \<Rightarrow> Options" where
  "mergeOptions a b =
     \<lparr>davClass1 = (davClass1 a \<or> davClass1 b), davClass2 = (davClass2 a \<or> davClass2 b),
      davClass3 = (davClass3 a \<or> davClass3 b), davExtensions = davExtensions a @ davExtensions b\<rparr>"

definition redirectParser :: "unit HttpParser" where
  "redirectParser =
     (newHttpParser ())\<lparr>status_code := 301, statusString := ''Moved'', headersComplete := True,
        messageComplete := True,
        headers := [''location'' \<mapsto> \<lparr>headerName = ''location'', headerValue = ''/x''\<rparr>]\<rparr>"

section \<open>The file name of a download\<close>

lemma unescapeFilename_escape [simp]: "unescapeFilename (escapeETag f) = f"
  by (induction f) (simp_all add: escapeETag_def)

lemma unescapeFilename_plain: "BACKSLASH \<notin> set f \<Longrightarrow> unescapeFilename f = f"
  by (induction f) auto

lemma length_unescapeFilename: "length (unescapeFilename f) \<le> length f"
  by (induction f rule: unescapeFilename.induct) (auto split: list.splits intro: le_SucI)

lemma trimArray_quoted [simp]: "trimArray (DQUOTE # v @ [DQUOTE]) = DQUOTE # v @ [DQUOTE]"
  using trim_quoted [of v] by (simp add: trim_def)

lemma parseFilename_quoted [simp]: "parseFilename (quoteFilename f) = f"
  by (simp add: parseFilename_def quoteFilename_def)

lemma parseFilename_unquoted:
  "trimArray v = f \<Longrightarrow> \<not> (length f \<ge> 2 \<and> hd f = DQUOTE \<and> last f = DQUOTE) \<Longrightarrow>
     parseFilename v = f"
  by (auto simp: parseFilename_def Let_def)

lemma set_escapeETag: "set (escapeETag f) \<subseteq> insert BACKSLASH (set f)"
  by (induction f) (auto simp: escapeETag_def)

lemma semicolon_quoteFilename:
  "CHR '';'' \<notin> set f \<Longrightarrow> CHR '';'' \<notin> set (quoteFilename f)"
  using set_escapeETag [of f] by (auto simp: quoteFilename_def)

lemma dispositionParam_filename:
  "dispositionParam d ('' filename='' @ v) = Download (parseFilename v)"
proof -
  have "splitFirst ('' filename'' @ CHR ''='' # v) (CHR ''='') = Some ('' filename'', v)"
    by (rule splitFirst_append) simp
  moreover have "trim '' filename'' = ''filename''"
    by (simp add: trim_def trimArray_def char_eval)
  ultimately show ?thesis by (simp add: dispositionParam_def)
qed

lemma parseDisposition_attachment:
  assumes "CHR '';'' \<notin> set v"
  shows "parseDisposition (''attachment; filename='' @ v) = Download (parseFilename v)"
proof -
  have "split (''attachment'' @ CHR '';'' # ('' filename='' @ v)) (CHR '';'')
          = ''attachment'' # split ('' filename='' @ v) (CHR '';'')"
    by (rule split_append_delim) simp
  moreover have "split ('' filename='' @ v) (CHR '';'') = ['' filename='' @ v]"
    using assms by (intro split_no_delim) simp
  moreover have "trim ''attachment'' = ''attachment''"
    by (simp add: trim_def trimArray_def char_eval)
  ultimately show ?thesis
    using dispositionParam_filename [of Normal v] by (simp add: parseDisposition_def)
qed

lemma parseDisposition_inline:
  "trim (hd (split d (CHR '';''))) \<noteq> ''attachment'' \<Longrightarrow> parseDisposition d = Normal"
  by (simp add: parseDisposition_def)

section \<open>Lemmas on build\<close>

lemma optETag_Inl: "optETag h = Inl e \<Longrightarrow> \<exists>inp. e = InvalidETag inp"
  by (auto simp: optETag_def rbind_eq_Inl_iff dest: parseETag_error split: option.splits)

lemma optETag_ok_iff:
  "isOk (optETag h) \<longleftrightarrow> (case h of None \<Rightarrow> True | Some t \<Rightarrow> isOk (parseETag t))"
  by (auto simp: optETag_def isOk_iff rbind_eq_Inr_iff split: option.splits)

lemma optETag_Inr:
  "optETag h = Inr e \<Longrightarrow> map_option (Inr :: ETag \<Rightarrow> ETag result) e = map_option parseETag h"
  by (auto simp: optETag_def rbind_eq_Inr_iff split: option.splits)

lemma buildContent_ok_iff:
  "isOk (buildContent p c) \<longleftrightarrow>
     isOk (optETag (findHeader p ''etag'')) \<and> \<not> (isStreaming p \<and> body p \<noteq> [])"
  by (auto simp: buildContent_def isOk_iff rbind_eq_Inr_iff)

lemma buildContent_Inl:
  "buildContent p c = Inl e \<Longrightarrow> (\<exists>inp. e = InvalidETag inp) \<or> e = BodyNotEmpty"
  by (auto simp: buildContent_def rbind_eq_Inl_iff dest: optETag_Inl split: if_splits)

lemma buildContent_Inr:
  assumes "buildContent p code = Inr c"
  shows "contentStatusCode c = code
       \<and> contentBody c = (if isStreaming p then Stream else Bytes (body p))
       \<and> contentMimeType c = (case findHeader p ''content-type'' of Some m \<Rightarrow> m | None \<Rightarrow> [])
       \<and> contentEncoding c = (case findHeader p ''content-encoding'' of Some m \<Rightarrow> m | None \<Rightarrow> [])
       \<and> contentLanguage c = (case findHeader p ''content-language'' of Some m \<Rightarrow> m | None \<Rightarrow> [])
       \<and> contentDisposition c =
           (case findHeader p ''content-disposition'' of Some d \<Rightarrow> parseDisposition d | None \<Rightarrow> Normal)
       \<and> optETag (findHeader p ''etag'') = Inr (contentETag c)"
  using assms by (auto simp: buildContent_def rbind_eq_Inr_iff split: if_splits)

lemma buildVariant_type: "buildVariant p info = Inr v \<Longrightarrow> variantType v = statusType info"
  by (cases info) (auto simp: buildVariant_def rbind_eq_Inr_iff split: option.splits)

lemma buildVariant_body:
  assumes v: "buildVariant p info = Inr V"
  shows "(case V of
            ContentResponse c \<Rightarrow>
              contentBody c = (if isStreaming p then Stream else Bytes (body p))
              \<and> contentMimeType c = (case findHeader p ''content-type'' of Some m \<Rightarrow> m | None \<Rightarrow> [])
              \<and> contentEncoding c = (case findHeader p ''content-encoding'' of Some m \<Rightarrow> m | None \<Rightarrow> [])
              \<and> contentLanguage c = (case findHeader p ''content-language'' of Some m \<Rightarrow> m | None \<Rightarrow> [])
          | ClientErrorResponse code html \<Rightarrow> html = body p
          | ServerErrorResponse html \<Rightarrow> html = body p
          | RedirectResponse perm get location \<Rightarrow> findHeader p ''location'' = Some location
          | _ \<Rightarrow> True)"
proof (cases info)
  case (ContentInfo code)
  with v obtain c where c: "buildContent p code = Inr c" and r: "V = ContentResponse c"
    by (auto simp: buildVariant_def rbind_eq_Inr_iff)
  from buildContent_Inr [OF c] r show ?thesis by simp
next
  case (RedirectInfo perm get)
  with v show ?thesis
    by (cases "findHeader p ''location''") (auto simp: buildVariant_def)
next
  case PreconditionFailedInfo
  with v show ?thesis by (auto simp: buildVariant_def rbind_eq_Inr_iff)
qed (use v in \<open>auto simp: buildVariant_def\<close>)

lemma buildVariant_ok_iff: "isOk (buildVariant p info) \<longleftrightarrow> buildable p info"
proof (cases info)
  case (ContentInfo c)
  have "isOk (rbind (buildContent p c) (\<lambda>c. Inr (ContentResponse c))) = isOk (buildContent p c)"
    by (cases "buildContent p c") simp_all
  with ContentInfo show ?thesis
    by (simp add: buildVariant_def buildable_def buildContent_ok_iff optETag_ok_iff)
next
  case PreconditionFailedInfo
  have "isOk (rbind (optETag (findHeader p ''etag'')) (\<lambda>e. Inr (PreconditionFailedResponse e)))
          = isOk (optETag (findHeader p ''etag''))"
    by (cases "optETag (findHeader p ''etag'')") simp_all
  with PreconditionFailedInfo show ?thesis
    by (simp add: buildVariant_def buildable_def optETag_ok_iff)
qed (auto simp: buildVariant_def buildable_def isOk_iff split: option.splits)

lemma buildVariant_Inl:
  "buildVariant p info = Inl e \<Longrightarrow>
     (\<exists>inp. e = InvalidETag inp) \<or> e = BodyNotEmpty \<or> e = MissingLocation (status_code p)"
  by (cases info)
    (auto simp: buildVariant_def rbind_eq_Inl_iff dest: optETag_Inl buildContent_Inl
      split: option.splits)

lemma build_Inr:
  assumes "build codes p = Inr r"
  shows "\<not> upgrade p
       \<and> (\<exists>info. statusInfoFor codes (status_code p) (statusString p) = Inr info
             \<and> buildVariant p info = Inr (responseVariant r))
       \<and> setCookies r = map buildCookie (cookies p)"
  using assms by (auto simp: build_def rbind_eq_Inr_iff split: if_splits)

lemma build_ok_iff:
  "isOk (build codes p) \<longleftrightarrow>
     \<not> upgrade p
     \<and> (\<exists>info. statusInfoFor codes (status_code p) (statusString p) = Inr info \<and> buildable p info)"
  using buildVariant_ok_iff [of p]
  by (auto simp: build_def isOk_iff rbind_eq_Inr_iff)

lemma build_Inl:
  assumes "build codes p = Inl e"
  shows "e = UnexpectedUpgrade \<or> e = UnsupportedStatus (status_code p) (statusString p)
       \<or> (\<exists>inp. e = InvalidETag inp) \<or> e = BodyNotEmpty \<or> e = MissingLocation (status_code p)"
proof (cases "upgrade p")
  case True
  with assms show ?thesis by (simp add: build_def)
next
  case False
  show ?thesis
  proof (cases "statusInfoFor codes (status_code p) (statusString p)")
    case (Inl x)
    with assms False have "e = x" by (simp add: build_def)
    with Inl show ?thesis
      by (auto simp: statusInfoFor_def split: option.splits if_splits)
  next
    case (Inr info)
    with assms False have "buildVariant p info = Inl e"
      by (cases "buildVariant p info") (simp_all add: build_def)
    from buildVariant_Inl [OF this] show ?thesis by blast
  qed
qed

section \<open>Lemmas on buildForWebSocket and buildOptions\<close>

lemma strArray_spaced: "strArray ps '', '' = strArray (spaced ps) '',''"
proof (induction ps "'', ''" rule: strArray.induct)
  case (3 x y ys)
  then show ?case by (cases ys) (simp_all add: spaced_def)
qed (simp_all add: spaced_def)

lemma map_trim_spaced: "map trim (spaced ps) = map trim ps"
  by (cases ps) (simp_all add: spaced_def comp_def)

lemma split_joined:
  assumes "ps \<noteq> []" and "\<forall>p \<in> set ps. CHR '','' \<notin> set p"
  shows "map trim (split (strArray ps '', '') (CHR '','')) = map trim ps"
proof -
  have "spaced ps \<noteq> []" using assms(1) by (cases ps) (simp_all add: spaced_def)
  moreover have "\<forall>p \<in> set (spaced ps). CHR '','' \<notin> set p"
    using assms(2) by (cases ps) (auto simp: spaced_def)
  ultimately have "split (strArray (spaced ps) '','') (CHR '','') = spaced ps"
    by (rule split_strArray)
  then show ?thesis by (simp add: strArray_spaced map_trim_spaced)
qed

lemma davLevel_merge: "davLevel opts level = mergeOptions opts (davSpec [trim level])"
  by (cases opts) (simp add: davLevel_def davSpec_def mergeOptions_def Let_def)

lemma davSpec_append: "davSpec (a @ b) = mergeOptions (davSpec a) (davSpec b)"
  by (auto simp: davSpec_def mergeOptions_def)

lemma mergeOptions_noOptions [simp]: "mergeOptions noOptions o2 = o2" "mergeOptions o2 noOptions = o2"
  by (simp_all add: mergeOptions_def noOptions_def)

lemma davSpec_Nil [simp]: "davSpec [] = noOptions"
  by (simp add: davSpec_def noOptions_def)

lemma foldl_davLevel:
  "foldl davLevel (davSpec done) levels = davSpec (done @ map trim levels)"
proof (induction levels arbitrary: "done")
  case Nil
  then show ?case by simp
next
  case (Cons l ls)
  have "davLevel (davSpec done) l = davSpec (done @ [trim l])"
    by (simp add: davLevel_merge davSpec_append)
  with Cons [of "done @ [trim l]"] show ?case by simp
qed

lemma buildOptions_spec:
  "buildOptions p =
     (if upgrade p then Inl UnexpectedUpgrade
      else Inr (case findHeader p ''dav'' of
                  None \<Rightarrow> noOptions
                | Some dav \<Rightarrow> davSpec (map trim (split dav (CHR '','')))))"
  using foldl_davLevel [of "[]"] by (simp add: buildOptions_def split: option.splits)

section \<open>Properties\<close>

text \<open>
  C2.  The variant of the result is the classification of the status code.
  When \<^verbatim>\<open>build\<close> succeeds the response was not an upgrade, the status code
  was in the table or was a 4xx or 5xx code, the variant built is the one the
  status information names, and the cookies of the result are the cookies
  parsed, in order.
\<close>

theorem build_classification:
  assumes "build codes p = Inr r"
  shows "\<not> upgrade p
       \<and> (\<exists>info. statusInfoFor codes (status_code p) (statusString p) = Inr info
             \<and> variantType (responseVariant r) = statusType info)
       \<and> (status_code p \<in> dom codes \<or> status_code p div 100 = 4 \<or> status_code p div 100 = 5)
       \<and> setCookies r = map buildCookie (cookies p)"
proof -
  from build_Inr [OF assms] obtain info where
    i: "statusInfoFor codes (status_code p) (statusString p) = Inr info"
    and v: "buildVariant p info = Inr (responseVariant r)"
    and o: "\<not> upgrade p" "setCookies r = map buildCookie (cookies p)"
    by auto
  from i have "status_code p \<in> dom codes \<or> status_code p div 100 = 4 \<or> status_code p div 100 = 5"
    by (auto simp: statusInfoFor_def split: option.splits if_splits)
  with i buildVariant_type [OF v] o show ?thesis by auto
qed

theorem build_classification_witness:
  "build (fixedCodes Map.empty) redirectParser =
     Inr \<lparr>setCookies = [], responseVariant = RedirectResponse True True ''/x''\<rparr>
   \<and> variantType (RedirectResponse True True ''/x'') = statusType (redirectInfo True True)"
proof -
  have b: "build (fixedCodes Map.empty) redirectParser =
     Inr \<lparr>setCookies = [], responseVariant = RedirectResponse True True ''/x''\<rparr>"
    by (simp add: build_def redirectParser_def statusInfoFor_def fixedCodes_def buildVariant_def
        findHeader_def redirectInfo_def)
  from build_classification [OF b] b show ?thesis by (simp add: redirectInfo_def)
qed

text \<open>
  C12.  When \<^verbatim>\<open>build\<close> fails.  It succeeds exactly when the response is not an
  upgrade, the status code is classified, an \<^verbatim>\<open>ETag\<close> header of a content or
  precondition-failed response is a valid tag, a redirect has a \<^verbatim>\<open>Location\<close>
  header, and a streamed content response has no buffered body left; and the
  error of a failure is one of these five causes.
\<close>

theorem build_succeeds_iff:
  "(isOk (build codes p) \<longleftrightarrow>
     \<not> upgrade p
     \<and> (\<exists>info. statusInfoFor codes (status_code p) (statusString p) = Inr info \<and> buildable p info))
   \<and> (\<forall>e. build codes p = Inl e \<longrightarrow>
         e = UnexpectedUpgrade \<or> e = UnsupportedStatus (status_code p) (statusString p)
         \<or> (\<exists>inp. e = InvalidETag inp) \<or> e = BodyNotEmpty \<or> e = MissingLocation (status_code p))"
  using build_ok_iff [of codes p] build_Inl [of codes p] by blast

theorem build_succeeds_iff_witness:
  "build (fixedCodes Map.empty) (redirectParser\<lparr>headers := Map.empty\<rparr>) = Inl (MissingLocation 301)
   \<and> build (fixedCodes Map.empty) (redirectParser\<lparr>status_code := 299\<rparr>)
       = Inl (UnsupportedStatus 299 ''Moved'')
   \<and> \<not> isOk (build (fixedCodes Map.empty) (redirectParser\<lparr>upgrade := True\<rparr>))"
  using build_succeeds_iff [of "fixedCodes Map.empty" "redirectParser\<lparr>upgrade := True\<rparr>"]
  by (simp add: build_def redirectParser_def statusInfoFor_def fixedCodes_def buildVariant_def
      findHeader_def redirectInfo_def)

text \<open>
  C24.  The body reaches the result unchanged.  A content response carries
  the bytes collected, or the stream handle when the response is streaming;
  its MIME type, encoding and language are the folded values of the headers;
  a client or server error carries the bytes collected as its description.
\<close>

theorem build_body:
  assumes "build codes p = Inr r"
  shows "(case responseVariant r of
            ContentResponse c \<Rightarrow>
              contentBody c = (if isStreaming p then Stream else Bytes (body p))
              \<and> contentMimeType c = (case findHeader p ''content-type'' of Some m \<Rightarrow> m | None \<Rightarrow> [])
              \<and> contentEncoding c = (case findHeader p ''content-encoding'' of Some m \<Rightarrow> m | None \<Rightarrow> [])
              \<and> contentLanguage c = (case findHeader p ''content-language'' of Some m \<Rightarrow> m | None \<Rightarrow> [])
          | ClientErrorResponse code html \<Rightarrow> html = body p
          | ServerErrorResponse html \<Rightarrow> html = body p
          | RedirectResponse perm get location \<Rightarrow> findHeader p ''location'' = Some location
          | _ \<Rightarrow> True)"
proof -
  from build_Inr [OF assms] obtain info where "buildVariant p info = Inr (responseVariant r)"
    by auto
  from buildVariant_body [OF this] show ?thesis .
qed

theorem build_body_witness:
  "build (fixedCodes Map.empty) (redirectParser\<lparr>status_code := 503, body := ''down''\<rparr>)
     = Inr \<lparr>setCookies = [], responseVariant = ServerErrorResponse ''down''\<rparr>"
proof -
  have b: "build (fixedCodes Map.empty) (redirectParser\<lparr>status_code := 503, body := ''down''\<rparr>)
     = Inr \<lparr>setCookies = [], responseVariant = ServerErrorResponse ''down''\<rparr>"
    by (simp add: build_def redirectParser_def statusInfoFor_def fixedCodes_def buildVariant_def)
  from build_body [OF b] b show ?thesis by simp
qed

text \<open>
  C25.  The file name of a download.  For any file name without a semicolon,
  the header \<^verbatim>\<open>attachment; filename=\<close> followed by the name in double quotes,
  with quotes and backslashes inside it escaped by a backslash, gives a
  download of exactly that name; in particular the header of the
  specification's scenario gives the name \<^verbatim>\<open>a"b.txt\<close>.  The header is cut at
  semicolons before the quotes are looked at, so a quoted name that holds a
  semicolon is cut short: \<^verbatim>\<open>filename="a;b.txt"\<close> gives the name \<^verbatim>\<open>"a\<close>.
\<close>

theorem download_filename:
  "(CHR '';'' \<notin> set f \<longrightarrow>
      parseDisposition (''attachment; filename='' @ quoteFilename f) = Download f)
   \<and> parseDisposition (''attachment; filename='' @ [DQUOTE] @ ''a'' @ [BACKSLASH, DQUOTE] @ ''b.txt'' @ [DQUOTE])
       = Download (''a'' @ [DQUOTE] @ ''b.txt'')
   \<and> parseDisposition (''attachment; filename='' @ [DQUOTE] @ ''a;b.txt'' @ [DQUOTE])
       = Download [DQUOTE, CHR ''a'']"
proof -
  have 1: "parseDisposition (''attachment; filename='' @ quoteFilename g) = Download g"
    if "CHR '';'' \<notin> set g" for g
    using parseDisposition_attachment [OF semicolon_quoteFilename [OF that]] by simp
  have "quoteFilename (''a'' @ [DQUOTE] @ ''b.txt'') = [DQUOTE] @ ''a'' @ [BACKSLASH, DQUOTE] @ ''b.txt'' @ [DQUOTE]"
    by (simp add: quoteFilename_def escapeETag_def)
  with 1 [of "''a'' @ [DQUOTE] @ ''b.txt''"]
  have 2: "parseDisposition (''attachment; filename='' @ [DQUOTE] @ ''a'' @ [BACKSLASH, DQUOTE] @ ''b.txt'' @ [DQUOTE])
       = Download (''a'' @ [DQUOTE] @ ''b.txt'')"
    by simp
  have "trim ''attachment'' = ''attachment''" "trim ''filename'' = ''filename''"
    by (simp_all add: trim_def trimArray_def char_eval)
  then have 3: "parseDisposition (''attachment; filename='' @ [DQUOTE] @ ''a;b.txt'' @ [DQUOTE])
       = Download [DQUOTE, CHR ''a'']"
    by (simp add: parseDisposition_def dispositionParam_def splitFirst_def parseFilename_def
        trimArray_def char_eval)
  from 1 [of f] 2 3 show ?thesis by blast
qed

theorem download_filename_witness:
  "CHR '';'' \<notin> set ''my file.txt''
   \<and> parseDisposition (''attachment; filename='' @ [DQUOTE] @ ''my file.txt'' @ [DQUOTE])
       = Download ''my file.txt''"
  using download_filename [of "''my file.txt''"]
  by (simp add: quoteFilename_def escapeETag_def)

text \<open>
  The result of a WebSocket upgrade.  \<^verbatim>\<open>buildForWebSocket\<close> succeeds
  exactly when the status code is 101.  The protocols it returns are the
  pieces of the \<^verbatim>\<open>Sec-WebSocket-Protocol\<close> header between commas, trimmed: a
  header made of protocol names joined by a comma and a space gives these
  names back, and no header gives the empty list.
\<close>

theorem buildForWebSocket_protocols:
  "(isOk (buildForWebSocket p) \<longleftrightarrow> status_code p = 101)
   \<and> (status_code p \<noteq> 101 \<longrightarrow> buildForWebSocket p = Inl (NoWebSocket (status_code p)))
   \<and> (status_code p = 101 \<and> findHeader p ''sec-websocket-protocol'' = None \<longrightarrow>
         buildForWebSocket p = Inr [])
   \<and> (status_code p = 101 \<and> ps \<noteq> [] \<and> list_all (\<lambda>q. CHR '','' \<notin> set q \<and> trim q = q) ps
         \<and> findHeader p ''sec-websocket-protocol'' = Some (strArray ps '', '') \<longrightarrow>
         buildForWebSocket p = Inr ps)"
proof -
  have "map trim (split (strArray ps '', '') (CHR '','')) = ps"
    if "ps \<noteq> []" "list_all (\<lambda>q. CHR '','' \<notin> set q \<and> trim q = q) ps"
  proof -
    from that have "map trim ps = ps" by (simp add: list_all_iff map_idI)
    with split_joined [of ps] that show ?thesis by (simp add: list_all_iff)
  qed
  then show ?thesis by (auto simp: buildForWebSocket_def isOk_iff)
qed

theorem buildForWebSocket_protocols_witness:
  "buildForWebSocket ((newHttpParser ())\<lparr>status_code := 101,
       headers := [''sec-websocket-protocol'' \<mapsto>
          \<lparr>headerName = ''sec-websocket-protocol'', headerValue = ''chat, superchat''\<rparr>]\<rparr>)
     = Inr [''chat'', ''superchat'']
   \<and> buildForWebSocket ((newHttpParser ())\<lparr>status_code := 200\<rparr>) = Inl (NoWebSocket 200)"
  using buildForWebSocket_protocols [of "(newHttpParser ())\<lparr>status_code := 101,
       headers := [''sec-websocket-protocol'' \<mapsto>
          \<lparr>headerName = ''sec-websocket-protocol'', headerValue = ''chat, superchat''\<rparr>]\<rparr>"
      "[''chat'', ''superchat'']"]
    buildForWebSocket_protocols [of "(newHttpParser ())\<lparr>status_code := 200\<rparr>" "[]"]
  by (simp add: findHeader_def trim_def trimArray_def char_eval)

text \<open>
  The WebDAV options.  \<^verbatim>\<open>buildOptions\<close> refuses an upgrade; otherwise
  the three class flags say whether \<^verbatim>\<open>1\<close>, \<^verbatim>\<open>2\<close> and \<^verbatim>\<open>3\<close> occur among the
  trimmed pieces of the \<^verbatim>\<open>DAV\<close> header between commas, and the extensions
  are the other pieces in the order of the header; without the header
  nothing is set.
\<close>

theorem buildOptions_levels:
  "buildOptions p =
     (if upgrade p then Inl UnexpectedUpgrade
      else Inr (case findHeader p ''dav'' of
                  None \<Rightarrow> noOptions
                | Some dav \<Rightarrow>
                    \<lparr>davClass1 = (''1'' \<in> set (map trim (split dav (CHR '','')))),
                     davClass2 = (''2'' \<in> set (map trim (split dav (CHR '','')))),
                     davClass3 = (''3'' \<in> set (map trim (split dav (CHR '','')))),
                     davExtensions =
                       filter (\<lambda>t. t \<notin> {''1'', ''2'', ''3''}) (map trim (split dav (CHR '','')))\<rparr>))"
  by (simp add: buildOptions_spec davSpec_def split: option.splits)

theorem buildOptions_levels_witness:
  "buildOptions ((newHttpParser ())\<lparr>headers := [''dav'' \<mapsto>
       \<lparr>headerName = ''dav'', headerValue = ''1, 3, calendar-access''\<rparr>]\<rparr>)
     = Inr \<lparr>davClass1 = True, davClass2 = False, davClass3 = True,
            davExtensions = [''calendar-access'']\<rparr>"
  using buildOptions_levels [of "(newHttpParser ())\<lparr>headers := [''dav'' \<mapsto>
       \<lparr>headerName = ''dav'', headerValue = ''1, 3, calendar-access''\<rparr>]\<rparr>"]
  by (simp add: findHeader_def trim_def trimArray_def char_eval)

end
