(* ===== verification/Request_Stream.thy ===== *)
theory Request_Stream
  imports Bridge_Prelude Encoding
begin

text \<open>
  \<^verbatim>\<open>RequestStreamImpl\<close> (lines 765-894), the object behind a streaming
  \<^verbatim>\<open>POST\<close> or \<^verbatim>\<open>PUT\<close>: \<^verbatim>\<open>write\<close>, \<^verbatim>\<open>done\<close>, \<^verbatim>\<open>expectSize\<close> and the private
  \<^verbatim>\<open>writeHeadersOnce\<close>.  (\<^verbatim>\<open>getResponse\<close> reads the response and is modelled
  with the session, in \<open>Web_Session\<close>.)

  Every write to the connection is chained after the previous one through
  \<^verbatim>\<open>previousWrite\<close>, so the bytes reach the application in the order the
  writes were issued; the field \<open>streamWrites\<close> is the list of the writes
  issued, and \<open>wire\<close> their concatenation.  The two counters are 64-bit
  unsigned integers and are words here, so that their additions wrap as in
  the program.  A method that throws has already changed the object (the
  counter is advanced and the headers are sent before the size is checked),
  so every method returns the object after the call together with the error,
  if any.  The methods \<^verbatim>\<open>write\<close>, \<^verbatim>\<open>done\<close> and \<^verbatim>\<open>expectSize\<close> are \<open>streamWrite\<close>,
  \<open>streamDone\<close> and \<open>streamExpectSize\<close> here.
\<close>

section \<open>State and methods\<close>

record RequestStreamImpl =
  streamWrites :: "bytes list"
  doneCalled :: bool
  getResponseCalled :: bool
  isChunked :: bool
  bytesReceived :: "64 word"
  expectedSize :: "64 word option"
  httpRequest :: "string option"

definition newRequestStream :: "string \<Rightarrow> RequestStreamImpl" where
  "newRequestStream req =
     \<lparr>streamWrites = [], doneCalled = False, getResponseCalled = False, isChunked = True,
      bytesReceived = 0, expectedSize = None, httpRequest = Some req\<rparr>"

definition writeHeadersOnce ::
  "RequestStreamImpl \<Rightarrow> 64 word option \<Rightarrow> RequestStreamImpl \<times> error option" where
  "writeHeadersOnce rs contentLength =
     (case httpRequest rs of
        None \<Rightarrow> (rs, None)
      | Some reqString \<Rightarrow>
          (let rs1 = rs\<lparr>httpRequest := None\<rparr> in
           if \<not> endsWith reqString (CRLF @ CRLF) then (rs1, Some MissingTerminator)
           else
             (case contentLength of
                Some l \<Rightarrow>
                  (rs1\<lparr>isChunked := False,
                        streamWrites := streamWrites rs1 @
                          [toBytes (take (length reqString - 2) reqString
                                    @ ''Content-Length: '' @ strNat (unat l) @ CRLF @ CRLF) []]\<rparr>,
                   None)
              | None \<Rightarrow>
                  (rs1\<lparr>streamWrites := streamWrites rs1 @
                          [toBytes (take (length reqString - 2) reqString
                                    @ ''Transfer-Encoding: chunked'' @ CRLF @ CRLF) []]\<rparr>,
                   None))))"

definition forward :: "RequestStreamImpl \<Rightarrow> bytes \<Rightarrow> RequestStreamImpl" where
  "forward rs dat =
     rs\<lparr>streamWrites := streamWrites rs @
          (if isChunked rs then [hexNat (length dat) @ CRLF, dat, CRLF] else [dat])\<rparr>"

definition streamWrite :: "RequestStreamImpl \<Rightarrow> bytes \<Rightarrow> RequestStreamImpl \<times> error option" where
  "streamWrite rs dat =
     (if doneCalled rs then (rs, Some WriteAfterDone)
      else
        (case writeHeadersOnce rs None of
           (rs1, Some err) \<Rightarrow> (rs1, Some err)
         | (rs1, None) \<Rightarrow>
             (let rs2 = rs1\<lparr>bytesReceived := bytesReceived rs1 + of_nat (length dat)\<rparr> in
              if (case expectedSize rs2 of Some s \<Rightarrow> \<not> bytesReceived rs2 \<le> s | None \<Rightarrow> False)
              then (rs2, Some ReceivedTooMuch)
              else (forward rs2 dat, None))))"

definition streamDone :: "RequestStreamImpl \<Rightarrow> RequestStreamImpl \<times> error option" where
  "streamDone rs =
     (if (case expectedSize rs of Some s \<Rightarrow> bytesReceived rs \<noteq> s | None \<Rightarrow> False)
      then (rs, Some DoneTooEarly)
      else if doneCalled rs then (rs, Some DoneTwice)
      else
        (case writeHeadersOnce (rs\<lparr>doneCalled := True\<rparr>) (Some 0) of
           (rs1, Some err) \<Rightarrow> (rs1, Some err)
         | (rs1, None) \<Rightarrow>
             (if isChunked rs1
              then (rs1\<lparr>streamWrites := streamWrites rs1 @ [''0'' @ CRLF @ CRLF]\<rparr>, None)
              else (rs1, None))))"

definition streamExpectSize :: "RequestStreamImpl \<Rightarrow> 64 word \<Rightarrow> RequestStreamImpl \<times> error option" where
  "streamExpectSize rs sz =
     writeHeadersOnce (rs\<lparr>expectedSize := Some (bytesReceived rs + sz)\<rparr>) (Some sz)"

section \<open>Sequences of calls\<close>

datatype RequestCall = Write bytes | Done | ExpectSize "64 word"

fun call :: "RequestCall \<Rightarrow> RequestStreamImpl \<Rightarrow> RequestStreamImpl \<times> error option" where
  "call (Write dat) rs = streamWrite rs dat"
| "call Done rs = streamDone rs"
| "call (ExpectSize n) rs = streamExpectSize rs n"

fun calls :: "RequestCall list \<Rightarrow> RequestStreamImpl \<Rightarrow> RequestStreamImpl \<times> error option list" where
  "calls [] rs = (rs, [])"
| "calls (c # cs) rs =
     (case call c rs of (rs1, e) \<Rightarrow> (case calls cs rs1 of (rs2, es) \<Rightarrow> (rs2, e # es)))"

definition wire :: "RequestStreamImpl \<Rightarrow> bytes" where
  "wire rs = concat (streamWrites rs)"

section \<open>Specification and fixtures\<close>

text \<open>
  The header blocks the object is meant to send, the chunk of the chunked
  transfer coding, and a decoder of that coding, which is what the
  application does with the bytes it receives.
\<close>

definition contentLengthHeader :: "string \<Rightarrow> nat \<Rightarrow> bytes" where
  "contentLengthHeader req n =
     take (length req - 2) req @ ''Content-Length: '' @ strNat n @ CRLF @ CRLF"

definition chunkedHeader :: "string \<Rightarrow> bytes" where
  "chunkedHeader req = take (length req - 2) req @ ''Transfer-Encoding: chunked'' @ CRLF @ CRLF"

definition chunk :: "bytes \<Rightarrow> bytes" where
  "chunk d = hexNat (length d) @ CRLF @ d @ CRLF"

definition lastChunk :: bytes where
  "lastChunk = ''0'' @ CRLF @ CRLF"

fun hexStep :: "nat option \<Rightarrow> char \<Rightarrow> nat option" where
  "hexStep None c = None"
| "hexStep (Some a) c = map_option (\<lambda>v. 16 * a + v) (hexVal c)"

definition hexValue :: "string \<Rightarrow> nat option" where
  "hexValue s = (if s = [] then None else foldl hexStep (Some 0) s)"

fun dechunk :: "nat \<Rightarrow> bytes \<Rightarrow> (bytes \<times> bytes) option" where
  "dechunk 0 s = None"
| "dechunk (Suc k) s =
     (let sizeLine = takeWhile (\<lambda>c. c \<noteq> CR) s; rest = drop (length sizeLine) s in
      if take 2 rest \<noteq> CRLF then None
      else
        (case hexValue sizeLine of
           None \<Rightarrow> None
         | Some n \<Rightarrow>
             (let payload = drop 2 rest in
              if n = 0 then (if take 2 payload = CRLF then Some ([], drop 2 payload) else None)
              else if take 2 (drop n payload) \<noteq> CRLF \<or> length payload < n + 2 then None
              else map_option (\<lambda>(b, r). (take n payload @ b, r)) (dechunk k (drop (n + 2) payload)))))"

definition chunkWrites :: "bool \<Rightarrow> bytes \<Rightarrow> bytes list" where
  "chunkWrites chunked d = (if chunked then [hexNat (length d) @ CRLF, d, CRLF] else [d])"

definition withinSize :: "RequestStreamImpl \<Rightarrow> nat \<Rightarrow> bool" where
  "withinSize rs n =
     (case expectedSize rs of None \<Rightarrow> True | Some s \<Rightarrow> unat (bytesReceived rs) + n \<le> unat s)"

definition isHeader :: "string \<Rightarrow> bool \<Rightarrow> bytes \<Rightarrow> bool" where
  "isHeader req chunked h =
     (if chunked then h = chunkedHeader req
      else startsWith h (take (length req - 2) req @ ''Content-Length: ''))"

definition sentInv :: "string \<Rightarrow> RequestStreamImpl \<Rightarrow> bool" where
  "sentInv req rs =
     (case httpRequest rs of
        Some r \<Rightarrow> r = req \<and> streamWrites rs = [] \<and> isChunked rs \<and> \<not> doneCalled rs
                  \<and> bytesReceived rs = 0
      | None \<Rightarrow> streamWrites rs \<noteq> [] \<and> isHeader req (isChunked rs) (hd (streamWrites rs)))"

definition headed :: "string \<Rightarrow> RequestStreamImpl \<Rightarrow> bool" where
  "headed req rs =
     (case httpRequest rs of
        Some r \<Rightarrow> r = req \<and> streamWrites rs = [] \<and> isChunked rs
      | None \<Rightarrow> streamWrites rs \<noteq> [] \<and> isHeader req (isChunked rs) (hd (streamWrites rs)))"

inductive reachable :: "string \<Rightarrow> RequestStreamImpl \<Rightarrow> bool" for req where
  init: "reachable req (newRequestStream req)"
| step: "reachable req rs \<Longrightarrow> call c rs = (rs', e) \<Longrightarrow> reachable req rs'"

definition helloRequest :: string where
  "helloRequest = ''POST /up HTTP/1.1'' @ CRLF @ ''Host: sandbox'' @ CRLF @ CRLF"

definition terminated :: "string \<Rightarrow> bool" where
  "terminated req = endsWith req (CRLF @ CRLF)"

definition noErrors :: "error option list \<Rightarrow> bool" where
  "noErrors es = list_all (\<lambda>e. e = None) es"

definition headOk :: "RequestStreamImpl \<Rightarrow> bool" where
  "headOk rs = (case httpRequest rs of Some h \<Rightarrow> terminated h | None \<Rightarrow> True)"

inductive_cases reachable_cases: "reachable req rs"

section \<open>The chunked coding\<close>

lemma isHexDigit_hexNat: "list_all isHexDigit (hexNat n)"
proof (induction n rule: hexNat.induct)
  case (1 n)
  then show ?case by (subst hexNat.simps) simp
qed

lemma CR_notin_hexNat [simp]: "CR \<notin> set (hexNat n)"
  using isHexDigit_hexNat [of n]
  by (auto simp: list_all_iff isHexDigit_def isdigit_def uchar_def)

lemma hexFold_hexNat: "foldl hexStep (Some 0) (hexNat n) = Some n"
proof (induction n rule: hexNat.induct)
  case (1 n)
  show ?case
  proof (cases "n < 16")
    case True
    then show ?thesis by (subst hexNat.simps) simp
  next
    case False
    with 1 show ?thesis by (subst hexNat.simps) simp
  qed
qed

lemma hexValue_hexNat [simp]: "hexValue (hexNat n) = Some n"
  by (simp add: hexValue_def hexFold_hexNat)

lemma dechunk_chunk:
  assumes "d \<noteq> []"
  shows "dechunk (Suc k) (chunk d @ r) = map_option (\<lambda>(b, r'). (d @ b, r')) (dechunk k r)"
proof -
  have "takeWhile (\<lambda>c. c \<noteq> CR) (hexNat (length d) @ CR # LF # d @ CR # LF # r) = hexNat (length d)"
    by (rule takeWhile_until) simp
  with assms show ?thesis by (simp add: chunk_def Let_def)
qed

lemma dechunk_lastChunk [simp]: "dechunk (Suc k) (lastChunk @ r) = Some ([], r)"
proof -
  have "hexValue ''0'' = Some 0" using hexValue_hexNat [of 0] by simp
  then show ?thesis by (simp add: lastChunk_def Let_def)
qed

declare dechunk.simps [simp del]

lemma dechunk_chunks:
  assumes "list_all (\<lambda>d. d \<noteq> []) ds"
  shows "dechunk (Suc (length ds)) (concat (map chunk ds) @ lastChunk @ r) = Some (concat ds, r)"
  using assms
proof (induction ds)
  case Nil
  then show ?case by simp
next
  case (Cons d ds)
  then have "dechunk (Suc (length ds)) (concat (map chunk ds) @ lastChunk @ r) = Some (concat ds, r)"
    by simp
  with Cons.prems dechunk_chunk [of d "length (d # ds)" "concat (map chunk ds) @ lastChunk @ r"]
  show ?case by simp
qed

lemma chunk_Nil: "chunk [] = lastChunk"
  by (simp add: chunk_def lastChunk_def)

section \<open>The methods one by one\<close>

lemma writeHeadersOnce_sent [simp]:
  "httpRequest rs = None \<Longrightarrow> writeHeadersOnce rs cl = (rs, None)"
  by (simp add: writeHeadersOnce_def)

lemma writeHeadersOnce_chunked:
  "httpRequest rs = Some req \<Longrightarrow> terminated req \<Longrightarrow>
     writeHeadersOnce rs None =
       (rs\<lparr>httpRequest := None, streamWrites := streamWrites rs @ [chunkedHeader req]\<rparr>, None)"
  by (simp add: writeHeadersOnce_def terminated_def chunkedHeader_def Let_def)

lemma writeHeadersOnce_length:
  "httpRequest rs = Some req \<Longrightarrow> terminated req \<Longrightarrow>
     writeHeadersOnce rs (Some l) =
       (rs\<lparr>httpRequest := None, isChunked := False,
            streamWrites := streamWrites rs @ [contentLengthHeader req (unat l)]\<rparr>, None)"
  by (simp add: writeHeadersOnce_def terminated_def contentLengthHeader_def Let_def)

lemma writeHeadersOnce_unterminated:
  "httpRequest rs = Some req \<Longrightarrow> \<not> terminated req \<Longrightarrow>
     writeHeadersOnce rs cl = (rs\<lparr>httpRequest := None\<rparr>, Some MissingTerminator)"
  by (simp add: writeHeadersOnce_def terminated_def Let_def)

lemma streamWrite_sent:
  assumes "httpRequest rs = None" and "\<not> doneCalled rs"
  shows "streamWrite rs d =
           (if (case expectedSize rs of
                  Some s \<Rightarrow> \<not> bytesReceived rs + of_nat (length d) \<le> s | None \<Rightarrow> False)
            then (rs\<lparr>bytesReceived := bytesReceived rs + of_nat (length d)\<rparr>, Some ReceivedTooMuch)
            else (rs\<lparr>bytesReceived := bytesReceived rs + of_nat (length d),
                     streamWrites := streamWrites rs @ chunkWrites (isChunked rs) d\<rparr>, None))"
  using assms
  by (cases "expectedSize rs") (simp_all add: streamWrite_def forward_def chunkWrites_def Let_def)

lemma streamWrite_after_done [simp]:
  "doneCalled rs \<Longrightarrow> streamWrite rs d = (rs, Some WriteAfterDone)"
  by (simp add: streamWrite_def)

lemma withinSize_step:
  assumes "withinSize rs (length d + n)"
  shows "\<not> (case expectedSize rs of
               Some s \<Rightarrow> \<not> bytesReceived rs + of_nat (length d) \<le> s | None \<Rightarrow> False)"
    and "withinSize (rs\<lparr>bytesReceived := bytesReceived rs + of_nat (length d), streamWrites := w\<rparr>) n"
proof -
  have *: "unat (bytesReceived rs + of_nat (length d)) = unat (bytesReceived rs) + length d"
    if "expectedSize rs = Some s" for s
  proof (rule unat_add_of_nat)
    from assms that have "unat (bytesReceived rs) + length d \<le> unat s"
      by (simp add: withinSize_def)
    also have "unat s < 2 ^ LENGTH(64)" by (rule unsigned_less)
    finally show "unat (bytesReceived rs) + length d < 2 ^ LENGTH(64)" .
  qed
  from assms * show "\<not> (case expectedSize rs of
               Some s \<Rightarrow> \<not> bytesReceived rs + of_nat (length d) \<le> s | None \<Rightarrow> False)"
    by (auto simp: withinSize_def word_le_nat_alt split: option.splits)
  from assms * show
    "withinSize (rs\<lparr>bytesReceived := bytesReceived rs + of_nat (length d), streamWrites := w\<rparr>) n"
    by (auto simp: withinSize_def split: option.splits)
qed

lemma calls_append:
  "calls (cs @ ds) rs =
     (case calls cs rs of (rs1, es) \<Rightarrow> (case calls ds rs1 of (rs2, fs) \<Rightarrow> (rs2, es @ fs)))"
  by (induction cs arbitrary: rs) (simp_all split: prod.splits)

lemma calls_writes:
  assumes "httpRequest rs = None" and "\<not> doneCalled rs" and "withinSize rs (length (concat ds))"
  shows "calls (map Write ds) rs =
           (rs\<lparr>bytesReceived := bytesReceived rs + of_nat (length (concat ds)),
                streamWrites := streamWrites rs @ concat (map (chunkWrites (isChunked rs)) ds)\<rparr>,
            replicate (length ds) None)"
  using assms
proof (induction ds arbitrary: rs)
  case Nil
  then show ?case by simp
next
  case (Cons d ds)
  let ?rs = "rs\<lparr>bytesReceived := bytesReceived rs + of_nat (length d),
                 streamWrites := streamWrites rs @ chunkWrites (isChunked rs) d\<rparr>"
  from Cons.prems(3) have w: "withinSize rs (length d + length (concat ds))" by simp
  from withinSize_step [OF w] streamWrite_sent [OF Cons.prems(1,2), of d]
  have 1: "streamWrite rs d = (?rs, None)" and 2: "withinSize ?rs (length (concat ds))"
    by simp_all
  from Cons.IH [of ?rs] Cons.prems(1,2) 2 1 show ?case by simp
qed

lemma wire_simps [simp]:
  "wire (rs\<lparr>streamWrites := w\<rparr>) = concat w"
  "wire (rs\<lparr>bytesReceived := b\<rparr>) = wire rs"
  "wire (rs\<lparr>doneCalled := c\<rparr>) = wire rs"
  "wire (rs\<lparr>expectedSize := x\<rparr>) = wire rs"
  "wire (rs\<lparr>httpRequest := h\<rparr>) = wire rs"
  "wire (rs\<lparr>isChunked := k\<rparr>) = wire rs"
  by (simp_all add: wire_def)

lemma concat_chunkWrites [simp]:
  "concat (concat (map (chunkWrites True) ds)) = concat (map chunk ds)"
  "concat (concat (map (chunkWrites False) ds)) = concat ds"
  by (induction ds) (simp_all add: chunkWrites_def chunk_def)

lemma concat_map_identity [simp]: "concat (map (chunkWrites False) ds) = ds"
  by (induction ds) (simp_all add: chunkWrites_def)

lemma streamDone_sent:
  assumes "httpRequest rs = None" and "\<not> doneCalled rs"
    and "case expectedSize rs of Some s \<Rightarrow> bytesReceived rs = s | None \<Rightarrow> True"
  shows "streamDone rs =
           (rs\<lparr>doneCalled := True,
                streamWrites := streamWrites rs @ (if isChunked rs then [lastChunk] else [])\<rparr>, None)"
  using assms by (cases "expectedSize rs") (simp_all add: streamDone_def lastChunk_def)

lemma identity_upload:
  assumes "terminated req" and "length (concat ds) < 2 ^ 64"
  shows "calls (ExpectSize (of_nat (length (concat ds))) # map Write ds @ [Done]) (newRequestStream req) =
           (\<lparr>streamWrites = contentLengthHeader req (length (concat ds)) # ds, doneCalled = True,
             getResponseCalled = False, isChunked = False,
             bytesReceived = of_nat (length (concat ds)),
             expectedSize = Some (of_nat (length (concat ds))), httpRequest = None\<rparr>,
            replicate (length ds + 2) None)"
proof -
  let ?n = "length (concat ds)"
  let ?s1 = "\<lparr>streamWrites = [contentLengthHeader req ?n], doneCalled = False,
             getResponseCalled = False, isChunked = False, bytesReceived = 0,
             expectedSize = Some (of_nat ?n), httpRequest = None\<rparr>"
  have u: "unat (of_nat ?n :: 64 word) = ?n"
    using assms(2) by (simp add: unat_of_nat_small)
  have 1: "streamExpectSize (newRequestStream req) (of_nat ?n) = (?s1, None)"
    using writeHeadersOnce_length [of "(newRequestStream req)\<lparr>expectedSize := Some (of_nat ?n)\<rparr>"
        req "of_nat ?n"] assms(1) u
    by (simp add: streamExpectSize_def newRequestStream_def)
  let ?s2 = "\<lparr>streamWrites = contentLengthHeader req ?n # ds, doneCalled = False,
             getResponseCalled = False, isChunked = False, bytesReceived = of_nat ?n,
             expectedSize = Some (of_nat ?n), httpRequest = None\<rparr>"
  have "withinSize ?s1 ?n" by (simp add: withinSize_def u)
  from calls_writes [of ?s1 ds, OF _ _ this]
  have 2: "calls (map Write ds) ?s1 = (?s2, replicate (length ds) None)"
    by simp
  have 3: "streamDone ?s2 = (?s2\<lparr>doneCalled := True\<rparr>, None)"
    by (simp add: streamDone_def)
  show ?thesis
    by (simp add: calls_append 1 2 3 replicate_append_same)
qed

lemma chunked_upload:
  assumes "terminated req" and "ds \<noteq> []"
  shows "calls (map Write ds @ [Done]) (newRequestStream req) =
           (\<lparr>streamWrites = chunkedHeader req # concat (map (chunkWrites True) ds) @ [lastChunk],
             doneCalled = True, getResponseCalled = False, isChunked = True,
             bytesReceived = of_nat (length (concat ds)),
             expectedSize = None, httpRequest = None\<rparr>,
            replicate (length ds + 1) None)"
proof -
  obtain d ds' where ds: "ds = d # ds'" using assms(2) by (cases ds) auto
  let ?s1 = "\<lparr>streamWrites = chunkedHeader req # chunkWrites True d, doneCalled = False,
             getResponseCalled = False, isChunked = True, bytesReceived = of_nat (length d),
             expectedSize = None, httpRequest = None\<rparr>"
  let ?s2 = "\<lparr>streamWrites = chunkedHeader req # chunkWrites True d @ concat (map (chunkWrites True) ds'),
             doneCalled = False, getResponseCalled = False, isChunked = True,
             bytesReceived = of_nat (length d) + of_nat (length (concat ds')),
             expectedSize = None, httpRequest = None\<rparr>"
  have 1: "streamWrite (newRequestStream req) d = (?s1, None)"
    using writeHeadersOnce_chunked [of "newRequestStream req" req] assms(1)
    by (simp add: streamWrite_def newRequestStream_def forward_def chunkWrites_def Let_def)
  have "withinSize ?s1 (length (concat ds'))" by (simp add: withinSize_def)
  from calls_writes [of ?s1 ds', OF _ _ this]
  have 2: "calls (map Write ds') ?s1 = (?s2, replicate (length ds') None)"
    by simp
  have 3: "streamDone ?s2 = (?s2\<lparr>doneCalled := True,
      streamWrites := chunkedHeader req # chunkWrites True d @ concat (map (chunkWrites True) ds')
         @ [lastChunk]\<rparr>, None)"
    by (simp add: streamDone_def lastChunk_def)
  show ?thesis
    unfolding ds by (simp add: calls_append 1 2 3 replicate_append_same)
qed

section \<open>Reachable states\<close>

lemma isHeader_simps [simp]:
  "isHeader req True (chunkedHeader req)" "isHeader req False (contentLengthHeader req n)"
  by (simp_all add: isHeader_def contentLengthHeader_def startsWith_def)

lemma sentInv_new [simp]: "sentInv req (newRequestStream req)"
  by (simp add: sentInv_def newRequestStream_def)

lemma writeHeadersOnce_sentInv:
  assumes "terminated req" and "writeHeadersOnce rs cl = (rs', e)"
    and "headed req rs"
  shows "e = None \<and> httpRequest rs' = None \<and> streamWrites rs' \<noteq> []
       \<and> isHeader req (isChunked rs') (hd (streamWrites rs'))
       \<and> doneCalled rs' = doneCalled rs \<and> bytesReceived rs' = bytesReceived rs
       \<and> expectedSize rs' = expectedSize rs"
proof (cases "httpRequest rs")
  case None
  with assms show ?thesis by (simp add: headed_def)
next
  case (Some r)
  with assms(3) have r: "r = req" "streamWrites rs = []" "isChunked rs"
    by (simp_all add: headed_def)
  show ?thesis
  proof (cases cl)
    case None
    with writeHeadersOnce_chunked [of rs req] Some r assms(1,2) show ?thesis by auto
  next
    case (Some l)
    with writeHeadersOnce_length [of rs req l] \<open>httpRequest rs = Some r\<close> r assms(1,2)
    show ?thesis by auto
  qed
qed

lemma call_sentInv:
  assumes "terminated req" and "sentInv req rs" and "call c rs = (rs', e)"
  shows "sentInv req rs'"
proof -
  have pre: "headed req (rs\<lparr>doneCalled := x, expectedSize := y\<rparr>)" for x y
    using assms(2) by (auto simp: sentInv_def headed_def split: option.splits)
  have pre': "headed req rs"
    using assms(2) by (auto simp: sentInv_def headed_def split: option.splits)
  show ?thesis
  proof (cases c)
    case (Write d)
    show ?thesis
    proof (cases "doneCalled rs")
      case True
      with Write assms show ?thesis by simp
    next
      case False
      obtain rs1 e1 where w: "writeHeadersOnce rs None = (rs1, e1)"
        by (cases "writeHeadersOnce rs None") auto
      from writeHeadersOnce_sentInv [OF assms(1) w pre']
      have 1: "e1 = None" "httpRequest rs1 = None" "streamWrites rs1 \<noteq> []"
        "isHeader req (isChunked rs1) (hd (streamWrites rs1))"
        by simp_all
      with Write False w assms(3) show ?thesis
        by (auto simp: streamWrite_def forward_def sentInv_def Let_def split: if_splits)
    qed
  next
    case Done
    obtain rs1 e1 where w: "writeHeadersOnce (rs\<lparr>doneCalled := True\<rparr>) (Some 0) = (rs1, e1)"
      by (cases "writeHeadersOnce (rs\<lparr>doneCalled := True\<rparr>) (Some 0)") auto
    from writeHeadersOnce_sentInv [OF assms(1) w] pre [where x = True and y = "expectedSize rs"]
    have 1: "e1 = None" "httpRequest rs1 = None" "streamWrites rs1 \<noteq> []"
      "isHeader req (isChunked rs1) (hd (streamWrites rs1))"
      by simp_all
    with Done w assms(2,3) show ?thesis
      by (auto simp: streamDone_def sentInv_def split: if_splits)
  next
    case (ExpectSize n)
    with assms(3) have w: "writeHeadersOnce (rs\<lparr>expectedSize := Some (bytesReceived rs + n)\<rparr>) (Some n)
        = (rs', e)"
      by (simp add: streamExpectSize_def)
    from writeHeadersOnce_sentInv [OF assms(1) w]
      pre [where x = "doneCalled rs" and y = "Some (bytesReceived rs + n)"]
    show ?thesis by (simp add: sentInv_def)
  qed
qed

lemma reachable_sentInv:
  assumes "terminated req" and "reachable req rs"
  shows "sentInv req rs"
  using assms(2)
proof (induction rule: reachable.induct)
  case init
  show ?case by simp
next
  case (step rs c rs' e)
  from call_sentInv [OF assms(1) step.IH step.hyps(2)] show ?case .
qed

lemma reachable_calls:
  "reachable req rs \<Longrightarrow> reachable req (fst (calls cs rs))"
proof (induction cs arbitrary: rs)
  case Nil
  then show ?case by simp
next
  case (Cons c cs)
  obtain rs1 e where c: "call c rs = (rs1, e)" by (cases "call c rs") auto
  from reachable.step [OF Cons.prems c] have "reachable req rs1" .
  from Cons.IH [OF this] c show ?case by (cases "calls cs rs1") simp
qed

lemma terminated_helloRequest [simp]: "terminated helloRequest"
  by (simp add: terminated_def helloRequest_def endsWith_def)

lemmas stream_eval = newRequestStream_def streamWrite_def streamDone_def streamExpectSize_def
  writeHeadersOnce_def forward_def wire_def helloRequest_def endsWith_def toBytes_def Let_def

lemma chunked_wire:
  assumes "terminated req" and "ds \<noteq> []"
  shows "wire (fst (calls (map Write ds @ [Done]) (newRequestStream req)))
           = chunkedHeader req @ concat (map chunk ds) @ lastChunk"
  unfolding chunked_upload [OF assms] by (simp add: wire_def)

lemma chunk_length: "length d = n \<Longrightarrow> chunk d = hexNat n @ CRLF @ d @ CRLF"
  by (simp add: chunk_def)

lemma noErrors_simps [simp]:
  "noErrors []" "noErrors (e # es) \<longleftrightarrow> e = None \<and> noErrors es"
  "noErrors (replicate n None)"
  by (simp_all add: noErrors_def list_all_iff)

section \<open>The head is always accepted when it ends with an empty line\<close>

lemma writeHeadersOnce_headOk:
  assumes "writeHeadersOnce rs cl = (rs', e)" and "headOk rs"
  shows "e = None \<and> httpRequest rs' = None"
  using assms
  by (auto simp: writeHeadersOnce_def headOk_def terminated_def Let_def split: option.splits)

lemma headOk_sent [simp]: "httpRequest rs = None \<Longrightarrow> headOk rs"
  by (simp add: headOk_def)

lemma call_headOk:
  assumes "headOk rs"
  shows "snd (call c rs) \<noteq> Some MissingTerminator \<and> headOk (fst (call c rs))"
proof (cases c)
  case (Write d)
  obtain r1 where w: "writeHeadersOnce rs None = (r1, None)" and "httpRequest r1 = None"
    using writeHeadersOnce_headOk [OF _ assms] by (cases "writeHeadersOnce rs None") auto
  with Write assms show ?thesis
    by (simp add: streamWrite_def forward_def Let_def)
next
  case Done
  from assms have "headOk (rs\<lparr>doneCalled := True\<rparr>)" by (simp add: headOk_def)
  then obtain r1 where "writeHeadersOnce (rs\<lparr>doneCalled := True\<rparr>) (Some 0) = (r1, None)"
    and "httpRequest r1 = None"
    using writeHeadersOnce_headOk [of "rs\<lparr>doneCalled := True\<rparr>" "Some 0"]
    by (cases "writeHeadersOnce (rs\<lparr>doneCalled := True\<rparr>) (Some 0)") auto
  with Done assms show ?thesis
    by (simp add: streamDone_def)
next
  case (ExpectSize n)
  from assms have "headOk (rs\<lparr>expectedSize := Some (bytesReceived rs + n)\<rparr>)"
    by (simp add: headOk_def)
  then obtain r1 where
    "writeHeadersOnce (rs\<lparr>expectedSize := Some (bytesReceived rs + n)\<rparr>) (Some n) = (r1, None)"
    and "httpRequest r1 = None"
    using writeHeadersOnce_headOk [of "rs\<lparr>expectedSize := Some (bytesReceived rs + n)\<rparr>" "Some n"]
    by (cases "writeHeadersOnce (rs\<lparr>expectedSize := Some (bytesReceived rs + n)\<rparr>) (Some n)") auto
  with ExpectSize show ?thesis
    by (simp add: streamExpectSize_def)
qed

lemma calls_headOk:
  "headOk rs \<Longrightarrow> Some MissingTerminator \<notin> set (snd (calls cs rs)) \<and> headOk (fst (calls cs rs))"
proof (induction cs arbitrary: rs)
  case Nil
  then show ?case by simp
next
  case (Cons c cs)
  from call_headOk [OF Cons.prems, of c] Cons.IH [of "fst (call c rs)"] show ?case
    by (auto simp: split_beta)
qed

lemma headOk_new [simp]: "headOk (newRequestStream h) \<longleftrightarrow> terminated h"
  by (simp add: headOk_def newRequestStream_def)

section \<open>Properties\<close>

text \<open>
  C5.  An upload of declared size.  When \<^verbatim>\<open>expectSize(n)\<close> is the first call,
  followed by writes whose lengths add up to \<open>n\<close> (below \<open>2 ^ 64\<close>) and then
  \<^verbatim>\<open>done\<close>, no call fails, and what the application receives is the request
  head with the line \<^verbatim>\<open>Content-Length: n\<close> spliced in before the empty line,
  followed by exactly the bytes written, in order and without chunk framing.
\<close>

theorem expectSize_content_length:
  assumes "terminated req" and "length (concat ds) < 2 ^ 64"
  shows "noErrors (snd (calls (ExpectSize (of_nat (length (concat ds))) # map Write ds @ [Done])
                            (newRequestStream req)))
       \<and> wire (fst (calls (ExpectSize (of_nat (length (concat ds))) # map Write ds @ [Done])
                          (newRequestStream req)))
           = contentLengthHeader req (length (concat ds)) @ concat ds"
  unfolding identity_upload [OF assms] by (simp add: wire_def)

theorem expectSize_content_length_witness:
  "terminated helloRequest
   \<and> wire (fst (calls (ExpectSize 10 # map Write [''0123'', ''456789''] @ [Done])
                     (newRequestStream helloRequest)))
       = ''POST /up HTTP/1.1'' @ CRLF @ ''Host: sandbox'' @ CRLF @ ''Content-Length: 10'' @ CRLF
           @ CRLF @ ''0123456789''
   \<and> noErrors (snd (calls (ExpectSize 10 # map Write [''0123'', ''456789''] @ [Done])
               (newRequestStream helloRequest)))"
proof -
  have n: "of_nat (length (concat [''0123'', ''456789''])) = (10 :: 64 word)"
    "length (concat [''0123'', ''456789'']) = 10"
    by simp_all
  have h: "contentLengthHeader helloRequest 10 @ concat [''0123'', ''456789'']
      = ''POST /up HTTP/1.1'' @ CRLF @ ''Host: sandbox'' @ CRLF @ ''Content-Length: 10'' @ CRLF
           @ CRLF @ ''0123456789''"
    by (simp add: contentLengthHeader_def helloRequest_def)
  from expectSize_content_length [of helloRequest "[''0123'', ''456789'']"]
  show ?thesis
    unfolding n h by simp
qed

text \<open>
  C10.  A chunked upload.  Without \<^verbatim>\<open>expectSize\<close>, one or more writes followed
  by \<^verbatim>\<open>done\<close> never fail; the application receives the request head with
  \<^verbatim>\<open>Transfer-Encoding: chunked\<close> spliced in, then one chunk per write and the
  last chunk.  When no write is empty, decoding the chunked body gives back
  exactly the bytes written, with nothing left over.
\<close>

theorem chunked_upload_decodes:
  assumes "terminated req" and "ds \<noteq> []"
  shows "noErrors (snd (calls (map Write ds @ [Done]) (newRequestStream req)))
       \<and> wire (fst (calls (map Write ds @ [Done]) (newRequestStream req)))
           = chunkedHeader req @ concat (map chunk ds) @ lastChunk
       \<and> (list_all (\<lambda>d. d \<noteq> []) ds \<longrightarrow>
            dechunk (Suc (length ds)) (concat (map chunk ds) @ lastChunk) = Some (concat ds, []))"
  unfolding chunked_upload [OF assms]
  using dechunk_chunks [of ds "[]"] by (simp add: wire_def)

theorem chunked_upload_decodes_witness:
  "wire (fst (calls (map Write [''hello '', ''world, hello!''] @ [Done]) (newRequestStream helloRequest)))
     = chunkedHeader helloRequest @ ''6'' @ CRLF @ ''hello '' @ CRLF @ ''d'' @ CRLF @ ''world, hello!''
         @ CRLF @ lastChunk
   \<and> dechunk 3 (''6'' @ CRLF @ ''hello '' @ CRLF @ ''d'' @ CRLF @ ''world, hello!'' @ CRLF @ lastChunk)
       = Some (''hello world, hello!'', [])"
proof -
  have c: "concat (map chunk [''hello '', ''world, hello!'']) @ lastChunk
      = ''6'' @ CRLF @ ''hello '' @ CRLF @ ''d'' @ CRLF @ ''world, hello!'' @ CRLF @ lastChunk"
    using chunk_length [of "''hello ''" 6] chunk_length [of "''world, hello!''" 13]
    by simp
  have l: "Suc (length [''hello '', ''world, hello!'']) = 3"
    "concat [''hello '', ''world, hello!''] = ''hello world, hello!''"
    "list_all (\<lambda>d. d \<noteq> []) [''hello '', ''world, hello!'']"
    by simp_all
  from chunked_upload_decodes [of helloRequest "[''hello '', ''world, hello!'']"]
  show ?thesis
    unfolding c l by simp
qed

text \<open>
  C18.  The contract of the object.  A write after \<^verbatim>\<open>done\<close> is refused and
  changes nothing; a second \<^verbatim>\<open>done\<close> is refused; \<^verbatim>\<open>done\<close> before the declared
  number of bytes has arrived is refused; and a write that takes the count
  past the declared size is refused without anything being sent, although the
  count has already been advanced by the refused bytes.
\<close>

theorem request_stream_contract:
  "(doneCalled rs \<longrightarrow> streamWrite rs d = (rs, Some WriteAfterDone))
   \<and> (doneCalled rs \<and> (case expectedSize rs of Some s \<Rightarrow> bytesReceived rs = s | None \<Rightarrow> True) \<longrightarrow>
         streamDone rs = (rs, Some DoneTwice))
   \<and> ((case expectedSize rs of Some s \<Rightarrow> bytesReceived rs \<noteq> s | None \<Rightarrow> False) \<longrightarrow>
         streamDone rs = (rs, Some DoneTooEarly))
   \<and> (httpRequest rs = None \<and> \<not> doneCalled rs \<and> expectedSize rs = Some s
         \<and> \<not> bytesReceived rs + of_nat (length d) \<le> s \<longrightarrow>
         streamWrite rs d =
           (rs\<lparr>bytesReceived := bytesReceived rs + of_nat (length d)\<rparr>, Some ReceivedTooMuch))"
  using streamWrite_sent [of rs d]
  by (cases "expectedSize rs") (simp_all add: streamDone_def)

theorem request_stream_contract_witness:
  "snd (calls [ExpectSize 3, Write ''abcd'', Done] (newRequestStream helloRequest))
     = [None, Some ReceivedTooMuch, Some DoneTooEarly]
   \<and> snd (calls [Done, Write ''x'', Done] (newRequestStream helloRequest))
     = [None, Some WriteAfterDone, Some DoneTwice]"
proof -
  let ?rs = "fst (calls [Done] (newRequestStream helloRequest))"
  have d: "doneCalled ?rs" "expectedSize ?rs = None"
    by (simp_all add: stream_eval)
  have 1: "snd (calls [ExpectSize 3, Write ''abcd'', Done] (newRequestStream helloRequest))
     = [None, Some ReceivedTooMuch, Some DoneTooEarly]"
    by (simp add: stream_eval)
  have "calls [Done, Write ''x'', Done] (newRequestStream helloRequest)
      = (case streamWrite ?rs ''x'' of (r1, e1) \<Rightarrow>
           (case streamDone r1 of (r2, e2) \<Rightarrow> (r2, [None, e1, e2])))"
    by (simp add: stream_eval)
  with request_stream_contract [of ?rs "''x''"] d 1 show ?thesis by simp
qed

text \<open>
  C20.  The request head goes first.  In every state the object reaches from
  a request that ends in an empty line, either nothing has been sent, nothing
  has been counted and the object is still in chunked mode and not done, or
  the first thing written to the connection is the request head with the
  header line of the current mode spliced in.
\<close>

theorem reachable_head_first:
  assumes "terminated req" and "reachable req rs"
  shows "sentInv req rs"
  using assms by (rule reachable_sentInv)

theorem reachable_head_first_witness:
  "sentInv helloRequest (fst (calls [Write ''ab'', ExpectSize 7, Done] (newRequestStream helloRequest)))
   \<and> hd (streamWrites (fst (calls [Write ''ab'', ExpectSize 7, Done] (newRequestStream helloRequest))))
       = chunkedHeader helloRequest"
proof -
  have "reachable helloRequest (fst (calls [Write ''ab'', ExpectSize 7, Done] (newRequestStream helloRequest)))"
    by (rule reachable_calls) (rule reachable.init)
  from reachable_head_first [OF terminated_helloRequest this] show ?thesis
    by (simp add: stream_eval chunkedHeader_def)
qed

text \<open>
  C33.  Only the first size counts on the wire.  Once the request head has
  been sent, \<^verbatim>\<open>expectSize\<close> sends nothing and only replaces the number of bytes
  the object will accept.  So after \<^verbatim>\<open>expectSize(10)\<close> and \<^verbatim>\<open>expectSize(20)\<close>
  twenty bytes are accepted and \<^verbatim>\<open>done\<close> succeeds, while the application was
  told \<^verbatim>\<open>Content-Length: 10\<close>.
\<close>

theorem expectSize_after_head:
  "(httpRequest rs = None \<longrightarrow>
      streamExpectSize rs n = (rs\<lparr>expectedSize := Some (bytesReceived rs + n)\<rparr>, None))
   \<and> noErrors (snd (calls [ExpectSize 10, ExpectSize 20, Write ''01234567890123456789'', Done]
                        (newRequestStream helloRequest)))
   \<and> wire (fst (calls [ExpectSize 10, ExpectSize 20, Write ''01234567890123456789'', Done]
                        (newRequestStream helloRequest)))
       = contentLengthHeader helloRequest 10 @ ''01234567890123456789''"
proof -
  have "calls [ExpectSize 10, ExpectSize 20, Write ''01234567890123456789'', Done]
          (newRequestStream helloRequest)
      = (\<lparr>streamWrites = [contentLengthHeader helloRequest 10, ''01234567890123456789''],
          doneCalled = True, getResponseCalled = False, isChunked = False, bytesReceived = 20,
          expectedSize = Some 20, httpRequest = None\<rparr>, [None, None, None, None])"
    by (simp add: stream_eval contentLengthHeader_def)
  then show ?thesis
    by (simp add: streamExpectSize_def wire_def)
qed

theorem expectSize_after_head_witness:
  "streamExpectSize (fst (streamExpectSize (newRequestStream helloRequest) 10)) 20
     = ((fst (streamExpectSize (newRequestStream helloRequest) 10))\<lparr>expectedSize := Some 20\<rparr>, None)"
proof -
  have "httpRequest (fst (streamExpectSize (newRequestStream helloRequest) 10)) = None"
    "bytesReceived (fst (streamExpectSize (newRequestStream helloRequest) 10)) = 0"
    by (simp_all add: stream_eval)
  with expectSize_after_head [of "fst (streamExpectSize (newRequestStream helloRequest) 10)" 20]
  show ?thesis by simp
qed

text \<open>
  C34.  An empty write ends a chunked body.  In chunked mode a write of no
  bytes is sent as a chunk of size zero, which is the last chunk of the
  chunked coding.  So when non-empty writes are followed by an empty write,
  further writes and \<^verbatim>\<open>done\<close>, no call fails, and what the application
  receives after the head decodes to the bytes written before the empty write
  only: the chunks of the later writes are left on the connection after the
  end of the request.
\<close>

theorem empty_write_ends_body:
  assumes "terminated req" and "list_all (\<lambda>d. d \<noteq> []) ds"
  shows "noErrors (snd (calls (map Write (ds @ [] # es) @ [Done]) (newRequestStream req)))
       \<and> (\<exists>body. wire (fst (calls (map Write (ds @ [] # es) @ [Done]) (newRequestStream req)))
                     = chunkedHeader req @ body
            \<and> dechunk (Suc (length ds)) body = Some (concat ds, concat (map chunk es) @ lastChunk))"
proof -
  have n: "ds @ [] # es \<noteq> []" by simp
  have "dechunk (Suc (length ds)) (concat (map chunk (ds @ [] # es)) @ lastChunk)
      = Some (concat ds, concat (map chunk es) @ lastChunk)"
    using dechunk_chunks [OF assms(2), of "concat (map chunk es) @ lastChunk"]
    by (simp add: chunk_Nil)
  moreover have "wire (fst (calls (map Write (ds @ [] # es) @ [Done]) (newRequestStream req)))
      = chunkedHeader req @ concat (map chunk (ds @ [] # es)) @ lastChunk"
    by (rule chunked_wire [OF assms(1) n])
  moreover have "noErrors (snd (calls (map Write (ds @ [] # es) @ [Done]) (newRequestStream req)))"
    unfolding chunked_upload [OF assms(1) n] by (simp add: noErrors_def list_all_iff)
  ultimately show ?thesis by blast
qed

theorem empty_write_ends_body_witness:
  "\<exists>body. wire (fst (calls (map Write [''ab'', [], ''cd''] @ [Done]) (newRequestStream helloRequest)))
             = chunkedHeader helloRequest @ body
        \<and> dechunk 2 body = Some (''ab'', chunk ''cd'' @ lastChunk)"
  using empty_write_ends_body [of helloRequest "[''ab'']" "[''cd'']"]
  by (simp add: numeral_2_eq_2)

end
