(* ===== verification/WebSocket_Pump.thy ===== *)
theory WebSocket_Pump
  imports Bridge_Prelude
begin

text \<open>
  \<^verbatim>\<open>WebSocketPump\<close> (lines 675-738), the object that carries a WebSocket once
  the application has accepted the upgrade.  \<^verbatim>\<open>pump\<close> reads from the
  application and calls \<^verbatim>\<open>sendBytes\<close> on the host's stream for every read.
  \<^verbatim>\<open>sendBytes\<close>, called by the host, attaches a continuation to the promise
  \<^verbatim>\<open>upstreamOp\<close>; the continuation writes the message to the application, and
  the promise of that write becomes the new \<^verbatim>\<open>upstreamOp\<close>.

  The promises are explicit in the model.  Every call of \<^verbatim>\<open>sendBytes\<close> is
  recorded with the promise it waits for and its own state; the event loop
  runs a continuation when the promise it waits for is fulfilled, rejects it
  when that promise is rejected, and completes or fails a write that is under
  way.  Which of the enabled events happens next is not determined.  That
  writes reach the application one at a time and in the order of the calls
  is therefore a theorem about the chaining and not a property of the
  representation.  The behaviour of a promise (\<^verbatim>\<open>then\<close>, \<^verbatim>\<open>fork\<close>) is KJ's and
  is modelled from its documentation.

  The connection is the list of the chunks its reads return; the end of the
  list, or an empty chunk, is the end of the stream.
\<close>

section \<open>State and methods\<close>

datatype PromiseState = Waiting | Writing | Fulfilled | Rejected

record SendBytesCall =
  callMessage :: bytes
  callAfter :: "nat option"
  callState :: PromiseState

record WebSocketPump =
  serverWrites :: "bytes list"
  clientSends :: "bytes list"
  clientStreamHeld :: bool
  upstreamOp :: "nat option"
  upstreamCalls :: "SendBytesCall list"

definition newWebSocketPump :: WebSocketPump where
  "newWebSocketPump =
     \<lparr>serverWrites = [], clientSends = [], clientStreamHeld = True, upstreamOp = None,
      upstreamCalls = []\<rparr>"

definition sendData :: "WebSocketPump \<Rightarrow> bytes \<Rightarrow> WebSocketPump" where
  "sendData w dat = w\<lparr>clientSends := clientSends w @ [dat]\<rparr>"

fun pump :: "WebSocketPump \<Rightarrow> bytes list \<Rightarrow> WebSocketPump" where
  "pump w [] = w\<lparr>clientStreamHeld := False\<rparr>"
| "pump w (buffer # rest) =
     (if length buffer > 0 then pump (sendData w buffer) rest
      else w\<lparr>clientStreamHeld := False\<rparr>)"

definition sendBytes :: "WebSocketPump \<Rightarrow> bytes \<Rightarrow> WebSocketPump" where
  "sendBytes w message =
     w\<lparr>upstreamCalls := upstreamCalls w
          @ [\<lparr>callMessage = message, callAfter = upstreamOp w, callState = Waiting\<rparr>],
       upstreamOp := Some (length (upstreamCalls w))\<rparr>"

section \<open>The event loop\<close>

text \<open>
  The state of the promise a continuation waits for (\<^verbatim>\<open>kj::READY_NOW\<close> is
  fulfilled), and the events of the loop: the host calls \<^verbatim>\<open>sendBytes\<close>; the
  continuation of call \<open>i\<close> runs and starts its write; the rejection of the
  promise it waits for reaches call \<open>i\<close>; the write of call \<open>i\<close> completes or
  fails.
\<close>

definition settled :: "WebSocketPump \<Rightarrow> nat option \<Rightarrow> PromiseState" where
  "settled w op =
     (case op of
        None \<Rightarrow> Fulfilled
      | Some j \<Rightarrow> if j < length (upstreamCalls w) then callState (upstreamCalls w ! j) else Waiting)"

definition inState :: "WebSocketPump \<Rightarrow> nat \<Rightarrow> PromiseState \<Rightarrow> bool" where
  "inState w i s \<longleftrightarrow> i < length (upstreamCalls w) \<and> callState (upstreamCalls w ! i) = s"

definition setState :: "WebSocketPump \<Rightarrow> nat \<Rightarrow> PromiseState \<Rightarrow> WebSocketPump" where
  "setState w i s =
     w\<lparr>upstreamCalls := (upstreamCalls w)[i := (upstreamCalls w ! i)\<lparr>callState := s\<rparr>]\<rparr>"

datatype LoopEvent = HostSends bytes | Runs nat | Propagates nat | WriteDone nat | WriteFails nat

fun loopStep :: "LoopEvent \<Rightarrow> WebSocketPump \<Rightarrow> WebSocketPump option" where
  "loopStep (HostSends message) w = Some (sendBytes w message)"
| "loopStep (Runs i) w =
     (if inState w i Waiting \<and> settled w (callAfter (upstreamCalls w ! i)) = Fulfilled
      then Some ((setState w i Writing)
                   \<lparr>serverWrites := serverWrites w @ [callMessage (upstreamCalls w ! i)]\<rparr>)
      else None)"
| "loopStep (Propagates i) w =
     (if inState w i Waiting \<and> settled w (callAfter (upstreamCalls w ! i)) = Rejected
      then Some (setState w i Rejected) else None)"
| "loopStep (WriteDone i) w = (if inState w i Writing then Some (setState w i Fulfilled) else None)"
| "loopStep (WriteFails i) w = (if inState w i Writing then Some (setState w i Rejected) else None)"

fun loop :: "LoopEvent list \<Rightarrow> WebSocketPump \<Rightarrow> WebSocketPump option" where
  "loop [] w = Some w"
| "loop (e # es) w = (case loopStep e w of None \<Rightarrow> None | Some w' \<Rightarrow> loop es w')"

section \<open>Specification\<close>

definition untilEof :: "bytes list \<Rightarrow> bytes list" where
  "untilEof chunks = takeWhile (\<lambda>c. c \<noteq> []) chunks"

fun hostMessages :: "LoopEvent list \<Rightarrow> bytes list" where
  "hostMessages [] = []"
| "hostMessages (HostSends message # es) = message # hostMessages es"
| "hostMessages (e # es) = hostMessages es"

definition idle :: "WebSocketPump \<Rightarrow> bool" where
  "idle w \<longleftrightarrow> serverWrites w = [] \<and> upstreamOp w = None \<and> upstreamCalls w = []"

text \<open>
  The invariant of the chain, in three parts.  \<open>linked\<close>: every call waits for
  the call before it, and \<^verbatim>\<open>upstreamOp\<close> is the last call.  \<open>issued\<close>: the
  writes started are the messages of the first calls.  \<open>ordered\<close>, with \<open>k\<close>
  writes started: none of the first \<open>k\<close> calls is still waiting, no later
  call has been started, and before a call whose write is under way or done
  every call is done.
\<close>

definition linked :: "WebSocketPump \<Rightarrow> bool" where
  "linked w \<longleftrightarrow>
     upstreamOp w = (if upstreamCalls w = [] then None else Some (length (upstreamCalls w) - 1))
     \<and> (\<forall>i < length (upstreamCalls w).
           callAfter (upstreamCalls w ! i) = (if i = 0 then None else Some (i - 1)))"

definition issued :: "WebSocketPump \<Rightarrow> bool" where
  "issued w \<longleftrightarrow>
     length (serverWrites w) \<le> length (upstreamCalls w)
     \<and> serverWrites w = map callMessage (take (length (serverWrites w)) (upstreamCalls w))"

definition ordered :: "WebSocketPump \<Rightarrow> bool" where
  "ordered w \<longleftrightarrow>
     (\<forall>i < length (serverWrites w). callState (upstreamCalls w ! i) \<noteq> Waiting)
     \<and> (\<forall>i < length (upstreamCalls w). length (serverWrites w) \<le> i \<longrightarrow>
           callState (upstreamCalls w ! i) = Waiting \<or> callState (upstreamCalls w ! i) = Rejected)
     \<and> (\<forall>j < length (upstreamCalls w).
           callState (upstreamCalls w ! j) = Fulfilled \<or> callState (upstreamCalls w ! j) = Writing
           \<longrightarrow> (\<forall>i < j. callState (upstreamCalls w ! i) = Fulfilled))"

definition chainInv :: "WebSocketPump \<Rightarrow> bool" where
  "chainInv w \<longleftrightarrow> linked w \<and> issued w \<and> ordered w"

text \<open>
  \<open>allDone\<close>: every write asked for has completed.  \<open>quiet\<close>: no write has
  failed and none is under way.  \<open>drain\<close> is a schedule that completes the
  write under way, if there is one, and then runs and completes every
  waiting call in turn.
\<close>

definition allDone :: "WebSocketPump \<Rightarrow> bool" where
  "allDone w = list_all (\<lambda>c. callState c = Fulfilled) (upstreamCalls w)"

definition noFailure :: "WebSocketPump \<Rightarrow> bool" where
  "noFailure w = list_all (\<lambda>c. callState c \<noteq> Rejected) (upstreamCalls w)"

definition quiet :: "WebSocketPump \<Rightarrow> bool" where
  "quiet w = list_all (\<lambda>c. callState c = Fulfilled \<or> callState c = Waiting) (upstreamCalls w)"

definition drainFrom :: "nat \<Rightarrow> nat \<Rightarrow> LoopEvent list" where
  "drainFrom k n = concat (map (\<lambda>i. [Runs i, WriteDone i]) [k..<n])"

definition drain :: "WebSocketPump \<Rightarrow> LoopEvent list" where
  "drain w =
     (let k = length (serverWrites w)
      in (if inState w (k - 1) Writing then [WriteDone (k - 1)] else [])
         @ drainFrom k (length (upstreamCalls w)))"

definition echoEvents :: "LoopEvent list" where
  "echoEvents = [HostSends ''abc'', HostSends ''de'', Runs 0, HostSends ''f'', WriteDone 0, Runs 1]"

section \<open>The pump\<close>

lemma pump_sends:
  "pump w chunks =
     w\<lparr>clientSends := clientSends w @ untilEof chunks, clientStreamHeld := False\<rparr>"
  by (induction chunks arbitrary: w) (simp_all add: untilEof_def sendData_def)

lemma pump_upstream [simp]:
  "upstreamCalls (pump w chunks) = upstreamCalls w" "upstreamOp (pump w chunks) = upstreamOp w"
  "serverWrites (pump w chunks) = serverWrites w"
  by (simp_all add: pump_sends)

lemma pump_sendBytes_commute: "pump (sendBytes w m) chunks = sendBytes (pump w chunks) m"
  by (simp add: pump_sends sendBytes_def)

lemma idle_new [simp]: "idle newWebSocketPump"
  by (simp add: idle_def newWebSocketPump_def)

lemma idle_pump [simp]: "idle (pump w chunks) \<longleftrightarrow> idle w"
  by (simp add: idle_def)

lemma idle_sendData [simp]: "idle (sendData w d) \<longleftrightarrow> idle w"
  by (simp add: idle_def sendData_def)

section \<open>The chain of writes\<close>

lemma idle_chainInv: "idle w \<Longrightarrow> chainInv w"
  by (simp add: idle_def chainInv_def linked_def issued_def ordered_def)

lemma setState_sel [simp]:
  "length (upstreamCalls (setState w i s)) = length (upstreamCalls w)"
  "serverWrites (setState w i s) = serverWrites w"
  "upstreamOp (setState w i s) = upstreamOp w"
  "clientSends (setState w i s) = clientSends w"
  "upstreamCalls (setState w i s) = [] \<longleftrightarrow> upstreamCalls w = []"
  by (simp_all add: setState_def)

lemma setState_nth [simp]:
  assumes "j < length (upstreamCalls w)"
  shows "callState (upstreamCalls (setState w i s) ! j)
           = (if j = i then s else callState (upstreamCalls w ! j))"
    and "callAfter (upstreamCalls (setState w i s) ! j) = callAfter (upstreamCalls w ! j)"
    and "callMessage (upstreamCalls (setState w i s) ! j) = callMessage (upstreamCalls w ! j)"
  using assms
  by (cases "i < length (upstreamCalls w)"; simp add: setState_def nth_list_update)+

lemma setState_messages [simp]:
  "map callMessage (take n (upstreamCalls (setState w i s)))
     = map callMessage (take n (upstreamCalls w))"
  by (rule nth_equalityI) simp_all

lemma orderedD:
  assumes "ordered w"
  shows "i < length (serverWrites w) \<Longrightarrow> callState (upstreamCalls w ! i) \<noteq> Waiting"
    and "i < length (upstreamCalls w) \<Longrightarrow> length (serverWrites w) \<le> i \<Longrightarrow>
           callState (upstreamCalls w ! i) = Waiting \<or> callState (upstreamCalls w ! i) = Rejected"
    and "j < length (upstreamCalls w) \<Longrightarrow>
           callState (upstreamCalls w ! j) = Fulfilled \<or> callState (upstreamCalls w ! j) = Writing
           \<Longrightarrow> i < j \<Longrightarrow> callState (upstreamCalls w ! i) = Fulfilled"
  using assms unfolding ordered_def by blast+

lemma ordered_waiting:
  assumes "ordered w" and "inState w i Waiting"
  shows "length (serverWrites w) \<le> i"
proof (rule ccontr)
  assume "\<not> length (serverWrites w) \<le> i"
  then have "i < length (serverWrites w)" by simp
  from orderedD(1) [OF assms(1) this] assms(2) show False by (simp add: inState_def)
qed

lemma ordered_started:
  assumes "ordered w" and "inState w i Fulfilled \<or> inState w i Writing"
  shows "i < length (serverWrites w)"
proof (rule ccontr)
  assume "\<not> i < length (serverWrites w)"
  then have k: "length (serverWrites w) \<le> i" by simp
  from assms(2) have i: "i < length (upstreamCalls w)" by (auto simp: inState_def)
  from orderedD(2) [OF assms(1) i k] assms(2) show False by (auto simp: inState_def)
qed

lemma ordered_before:
  assumes "ordered w" and "inState w j Fulfilled \<or> inState w j Writing" and "i < j"
  shows "callState (upstreamCalls w ! i) = Fulfilled"
proof -
  from assms(2) have "j < length (upstreamCalls w)"
    "callState (upstreamCalls w ! j) = Fulfilled \<or> callState (upstreamCalls w ! j) = Writing"
    by (auto simp: inState_def)
  then show ?thesis using assms(3) by (rule orderedD(3) [OF assms(1)])
qed

text \<open>The continuation that can run is the first one whose write has not started.\<close>

lemma runs_next:
  assumes "linked w" and "ordered w" and "inState w i Waiting"
    and "settled w (callAfter (upstreamCalls w ! i)) = Fulfilled"
  shows "i = length (serverWrites w)"
proof (rule antisym)
  show "length (serverWrites w) \<le> i" using assms(2,3) by (rule ordered_waiting)
  show "i \<le> length (serverWrites w)"
  proof (cases i)
    case 0
    then show ?thesis by simp
  next
    case (Suc j)
    from assms(3) have i: "i < length (upstreamCalls w)" by (simp add: inState_def)
    with assms(1) Suc have "callAfter (upstreamCalls w ! i) = Some j" by (simp add: linked_def)
    with assms(4) i Suc have "inState w j Fulfilled"
      by (simp add: settled_def inState_def split: if_splits)
    with assms(2) have "j < length (serverWrites w)" by (blast intro: ordered_started)
    with Suc show ?thesis by simp
  qed
qed

section \<open>Every event keeps the invariant\<close>

lemma sendBytes_sel [simp]:
  "upstreamCalls (sendBytes w m)
     = upstreamCalls w @ [\<lparr>callMessage = m, callAfter = upstreamOp w, callState = Waiting\<rparr>]"
  "serverWrites (sendBytes w m) = serverWrites w"
  "upstreamOp (sendBytes w m) = Some (length (upstreamCalls w))"
  "clientSends (sendBytes w m) = clientSends w"
  by (simp_all add: sendBytes_def)

lemma sendBytes_linked: "linked w \<Longrightarrow> linked (sendBytes w m)"
  by (auto simp: linked_def nth_append less_Suc_eq)

lemma sendBytes_issued: "issued w \<Longrightarrow> issued (sendBytes w m)"
  by (simp add: issued_def)

lemma sendBytes_ordered:
  assumes "issued w" and "ordered w"
  shows "ordered (sendBytes w m)"
proof -
  from assms(1) have k: "length (serverWrites w) \<le> length (upstreamCalls w)"
    by (simp add: issued_def)
  show ?thesis
    unfolding ordered_def sendBytes_sel
  proof (intro conjI allI impI)
    fix i assume "i < length (serverWrites w)"
    with k orderedD(1) [OF assms(2), of i]
    show "callState ((upstreamCalls w @ [\<lparr>callMessage = m, callAfter = upstreamOp w,
        callState = Waiting\<rparr>]) ! i) \<noteq> Waiting"
      by (simp add: nth_append)
  next
    fix i assume "i < length (upstreamCalls w @ [\<lparr>callMessage = m, callAfter = upstreamOp w,
        callState = Waiting\<rparr>])" "length (serverWrites w) \<le> i"
    with orderedD(2) [OF assms(2), of i]
    show "callState ((upstreamCalls w @ [\<lparr>callMessage = m, callAfter = upstreamOp w,
          callState = Waiting\<rparr>]) ! i) = Waiting
        \<or> callState ((upstreamCalls w @ [\<lparr>callMessage = m, callAfter = upstreamOp w,
          callState = Waiting\<rparr>]) ! i) = Rejected"
      by (cases "i < length (upstreamCalls w)") (simp_all add: nth_append)
  next
    fix j i assume j: "j < length (upstreamCalls w @ [\<lparr>callMessage = m, callAfter = upstreamOp w,
        callState = Waiting\<rparr>])"
      and s: "callState ((upstreamCalls w @ [\<lparr>callMessage = m, callAfter = upstreamOp w,
          callState = Waiting\<rparr>]) ! j) = Fulfilled
        \<or> callState ((upstreamCalls w @ [\<lparr>callMessage = m, callAfter = upstreamOp w,
          callState = Waiting\<rparr>]) ! j) = Writing"
      and i: "i < j"
    from j s have j': "j < length (upstreamCalls w)"
      by (cases "j < length (upstreamCalls w)") (auto simp: nth_append)
    with s have "callState (upstreamCalls w ! j) = Fulfilled \<or> callState (upstreamCalls w ! j) = Writing"
      by (simp add: nth_append)
    from orderedD(3) [OF assms(2) j' this i] i j'
    show "callState ((upstreamCalls w @ [\<lparr>callMessage = m, callAfter = upstreamOp w,
        callState = Waiting\<rparr>]) ! i) = Fulfilled"
      by (simp add: nth_append)
  qed
qed

lemma sendBytes_chainInv: "chainInv w \<Longrightarrow> chainInv (sendBytes w m)"
  by (simp add: chainInv_def sendBytes_linked sendBytes_issued sendBytes_ordered)

lemma setState_linked [simp]: "linked (setState w i s) \<longleftrightarrow> linked w"
  by (auto simp: linked_def)

lemma setState_issued [simp]: "issued (setState w i s) \<longleftrightarrow> issued w"
  by (simp add: issued_def)

text \<open>
  A write that completes or fails, and a rejection that reaches a waiting
  call, keep the order of the states.
\<close>

lemma setState_ordered:
  assumes "issued w" and "ordered w" and "inState w i s"
    and "s = Writing \<and> (s' = Fulfilled \<or> s' = Rejected) \<or> s = Waiting \<and> s' = Rejected"
  shows "ordered (setState w i s')"
proof -
  from assms(1) have k: "length (serverWrites w) \<le> length (upstreamCalls w)"
    by (simp add: issued_def)
  from assms(3) have si: "callState (upstreamCalls w ! i) = s" by (simp add: inState_def)
  have 1: "callState (upstreamCalls (setState w i s') ! n) \<noteq> Waiting"
    if "n < length (serverWrites w)" for n
    using that k assms(4) orderedD(1) [OF assms(2) that] by auto
  have 2: "callState (upstreamCalls (setState w i s') ! n) = Waiting
      \<or> callState (upstreamCalls (setState w i s') ! n) = Rejected"
    if "n < length (upstreamCalls w)" "length (serverWrites w) \<le> n" for n
    using that assms(4) orderedD(2) [OF assms(2) that] si by auto
  have 3: "callState (upstreamCalls (setState w i s') ! n) = Fulfilled"
    if j: "j < length (upstreamCalls w)"
      and sj: "callState (upstreamCalls (setState w i s') ! j) = Fulfilled
        \<or> callState (upstreamCalls (setState w i s') ! j) = Writing"
      and n: "n < j" for j n
  proof (cases "j = i")
    case True
    with sj j assms(4) have "s = Writing" "s' = Fulfilled" by auto
    with True assms(3) have "inState w j Fulfilled \<or> inState w j Writing" by simp
    from ordered_before [OF assms(2) this n] n j True show ?thesis by simp
  next
    case False
    with sj j have old: "callState (upstreamCalls w ! j) = Fulfilled
        \<or> callState (upstreamCalls w ! j) = Writing" by simp
    from orderedD(3) [OF assms(2) j old n]
    have f: "callState (upstreamCalls w ! n) = Fulfilled" .
    with si assms(4) have "n \<noteq> i" by auto
    with f n j show ?thesis by simp
  qed
  show ?thesis
    unfolding ordered_def setState_sel using 1 2 3 by blast
qed

text \<open>A continuation that runs starts the next write in the order of the calls.\<close>

lemma runs_issued:
  assumes "issued w" and "inState w (length (serverWrites w)) Waiting"
  shows "issued ((setState w (length (serverWrites w)) Writing)
           \<lparr>serverWrites := serverWrites w
              @ [callMessage (upstreamCalls w ! length (serverWrites w))]\<rparr>)"
proof -
  from assms(2) have k: "length (serverWrites w) < length (upstreamCalls w)"
    by (simp add: inState_def)
  from assms(1) have "serverWrites w
      = map callMessage (take (length (serverWrites w)) (upstreamCalls w))"
    by (simp add: issued_def)
  with k have "serverWrites w @ [callMessage (upstreamCalls w ! length (serverWrites w))]
      = map callMessage (take (Suc (length (serverWrites w))) (upstreamCalls w))"
    by (simp add: take_Suc_conv_app_nth)
  with k show ?thesis by (simp add: issued_def)
qed

lemma runs_ordered:
  assumes "linked w" and "ordered w" and "inState w (length (serverWrites w)) Waiting"
    and "settled w (callAfter (upstreamCalls w ! length (serverWrites w))) = Fulfilled"
  shows "ordered ((setState w (length (serverWrites w)) Writing)
           \<lparr>serverWrites := serverWrites w
              @ [callMessage (upstreamCalls w ! length (serverWrites w))]\<rparr>)"
proof -
  let ?k = "length (serverWrites w)"
  let ?w = "(setState w ?k Writing)\<lparr>serverWrites := serverWrites w
              @ [callMessage (upstreamCalls w ! ?k)]\<rparr>"
  from assms(3) have k: "?k < length (upstreamCalls w)" by (simp add: inState_def)
  have sel: "upstreamCalls ?w = upstreamCalls (setState w ?k Writing)"
    "length (serverWrites ?w) = Suc ?k" by simp_all
  have before: "callState (upstreamCalls w ! n) = Fulfilled" if "n < ?k" for n
  proof -
    from that obtain j where j: "?k = Suc j" by (cases ?k) auto
    with assms(1) k have "callAfter (upstreamCalls w ! ?k) = Some j" by (simp add: linked_def)
    with assms(4) k j have f: "inState w j Fulfilled"
      by (simp add: settled_def inState_def split: if_splits)
    show ?thesis
    proof (cases "n = j")
      case True
      with f show ?thesis by (simp add: inState_def)
    next
      case False
      with that j have "n < j" by simp
      with f show ?thesis by (blast intro: ordered_before [OF assms(2)])
    qed
  qed
  have 1: "callState (upstreamCalls ?w ! n) \<noteq> Waiting" if "n < Suc ?k" for n
    using that k before [of n] by (cases "n = ?k") simp_all
  have 2: "callState (upstreamCalls ?w ! n) = Waiting \<or> callState (upstreamCalls ?w ! n) = Rejected"
    if "n < length (upstreamCalls w)" "Suc ?k \<le> n" for n
    using that orderedD(2) [OF assms(2), of n] by simp
  have 3: "callState (upstreamCalls ?w ! n) = Fulfilled"
    if j: "j < length (upstreamCalls w)"
      and sj: "callState (upstreamCalls ?w ! j) = Fulfilled \<or> callState (upstreamCalls ?w ! j) = Writing"
      and n: "n < j" for j n
  proof -
    have "j \<le> ?k"
    proof (rule ccontr)
      assume "\<not> j \<le> ?k"
      then have "?k \<le> j" "j \<noteq> ?k" by simp_all
      with orderedD(2) [OF assms(2) j] sj j show False by auto
    qed
    with n have "n < ?k" by simp
    from before [OF this] this k show ?thesis by simp
  qed
  show ?thesis
    unfolding ordered_def
  proof (intro conjI allI impI)
    fix n assume "n < length (serverWrites ?w)"
    then show "callState (upstreamCalls ?w ! n) \<noteq> Waiting" using 1 [of n] by simp
  next
    fix n assume "n < length (upstreamCalls ?w)" "length (serverWrites ?w) \<le> n"
    then show "callState (upstreamCalls ?w ! n) = Waiting
        \<or> callState (upstreamCalls ?w ! n) = Rejected"
      using 2 [of n] by simp
  next
    fix j n assume "j < length (upstreamCalls ?w)"
      "callState (upstreamCalls ?w ! j) = Fulfilled \<or> callState (upstreamCalls ?w ! j) = Writing"
      "n < j"
    then show "callState (upstreamCalls ?w ! n) = Fulfilled" using 3 [of j n] by simp
  qed
qed

lemma loopStep_chainInv:
  assumes "chainInv w" and "loopStep e w = Some w'"
  shows "chainInv w'"
proof -
  from assms(1) have l: "linked w" and i: "issued w" and o: "ordered w"
    by (simp_all add: chainInv_def)
  show ?thesis
  proof (cases e)
    case (HostSends m)
    with assms show ?thesis by (auto intro: sendBytes_chainInv)
  next
    case (Runs n)
    with assms(2) have w: "inState w n Waiting"
      "settled w (callAfter (upstreamCalls w ! n)) = Fulfilled"
      and w': "w' = (setState w n Writing)\<lparr>serverWrites := serverWrites w
                  @ [callMessage (upstreamCalls w ! n)]\<rparr>"
      by (auto split: if_splits)
    from runs_next [OF l o w] have n: "n = length (serverWrites w)" .
    from w runs_issued [OF i] runs_ordered [OF l o] l show ?thesis
      unfolding w' n chainInv_def by (simp add: linked_def)
  next
    case (Propagates n)
    with assms(2) have "inState w n Waiting" and w': "w' = setState w n Rejected"
      by (auto split: if_splits)
    from setState_ordered [OF i o this(1), of Rejected] l i show ?thesis
      unfolding w' chainInv_def by simp
  next
    case (WriteDone n)
    with assms(2) have "inState w n Writing" and w': "w' = setState w n Fulfilled"
      by (auto split: if_splits)
    from setState_ordered [OF i o this(1), of Fulfilled] l i show ?thesis
      unfolding w' chainInv_def by simp
  next
    case (WriteFails n)
    with assms(2) have "inState w n Writing" and w': "w' = setState w n Rejected"
      by (auto split: if_splits)
    from setState_ordered [OF i o this(1), of Rejected] l i show ?thesis
      unfolding w' chainInv_def by simp
  qed
qed

lemma loop_chainInv: "chainInv w \<Longrightarrow> loop es w = Some w' \<Longrightarrow> chainInv w'"
proof (induction es arbitrary: w)
  case Nil
  then show ?case by simp
next
  case (Cons e es)
  then show ?case by (auto split: option.splits intro: loopStep_chainInv)
qed

section \<open>The messages of the host\<close>

lemma setState_all_messages [simp]:
  "map callMessage (upstreamCalls (setState w i s)) = map callMessage (upstreamCalls w)"
  by (rule nth_equalityI) simp_all

lemma loopStep_messages:
  "loopStep e w = Some w' \<Longrightarrow>
     map callMessage (upstreamCalls w') = map callMessage (upstreamCalls w) @ hostMessages [e]"
  by (cases e) (auto split: if_splits)

lemma hostMessages_Cons: "hostMessages (e # es) = hostMessages [e] @ hostMessages es"
  by (cases e) simp_all

lemma loop_messages:
  "loop es w = Some w' \<Longrightarrow>
     map callMessage (upstreamCalls w') = map callMessage (upstreamCalls w) @ hostMessages es"
proof (induction es arbitrary: w)
  case Nil
  then show ?case by simp
next
  case (Cons e es)
  then obtain w1 where 1: "loopStep e w = Some w1" and 2: "loop es w1 = Some w'"
    by (auto split: option.splits)
  from Cons.IH [OF 2] loopStep_messages [OF 1] show ?case
    by (simp add: hostMessages_Cons [of e es])
qed

lemma loop_append:
  "loop (es @ fs) w = (case loop es w of None \<Rightarrow> None | Some w' \<Rightarrow> loop fs w')"
  by (induction es arbitrary: w) (simp_all split: option.splits)

lemma loopStep_clientSends: "loopStep e w = Some w' \<Longrightarrow> clientSends w' = clientSends w"
  by (cases e) (auto split: if_splits)

lemma chainInv_one_write:
  assumes "chainInv w" and "inState w i Writing" and "inState w j Writing"
  shows "i = j"
proof (rule ccontr)
  assume "i \<noteq> j"
  then consider "i < j" | "j < i" by arith
  then show False
  proof cases
    case 1
    from assms(1) have "ordered w" by (simp add: chainInv_def)
    from ordered_before [OF this _ 1, of ] assms(2,3) show False by (auto simp: inState_def)
  next
    case 2
    from assms(1) have "ordered w" by (simp add: chainInv_def)
    from ordered_before [OF this _ 2] assms(2,3) show False by (auto simp: inState_def)
  qed
qed

lemma chainInv_prefix:
  assumes "chainInv w"
  shows "serverWrites w = take (length (serverWrites w)) (map callMessage (upstreamCalls w))"
    and "length (serverWrites w) \<le> length (upstreamCalls w)"
  using assms by (simp_all add: chainInv_def issued_def take_map)

lemma chainInv_allDone:
  assumes "chainInv w" and "allDone w"
  shows "serverWrites w = map callMessage (upstreamCalls w)"
proof -
  from assms(1) have o: "ordered w" by (simp add: chainInv_def)
  have "length (serverWrites w) = length (upstreamCalls w)"
  proof (rule ccontr)
    assume "length (serverWrites w) \<noteq> length (upstreamCalls w)"
    with chainInv_prefix(2) [OF assms(1)]
    have k: "length (serverWrites w) < length (upstreamCalls w)" by simp
    with assms(2) have "callState (upstreamCalls w ! length (serverWrites w)) = Fulfilled"
      by (simp add: allDone_def list_all_length)
    with orderedD(2) [OF o k] show False by simp
  qed
  with chainInv_prefix(1) [OF assms(1)] show ?thesis by simp
qed

section \<open>Draining the chain\<close>

lemma quiet_nth:
  "quiet w \<Longrightarrow> i < length (upstreamCalls w) \<Longrightarrow>
     callState (upstreamCalls w ! i) = Fulfilled \<or> callState (upstreamCalls w ! i) = Waiting"
  by (simp add: quiet_def list_all_length)

lemma quiet_setState:
  "quiet w \<Longrightarrow> quiet (setState w i Fulfilled)"
  by (simp add: quiet_def list_all_length)

lemma hostMessages_rounds: "hostMessages (concat (map (\<lambda>i. [Runs i, WriteDone i]) xs)) = []"
  by (induction xs) simp_all

lemma hostMessages_drainFrom [simp]: "hostMessages (drainFrom k n) = []"
  by (simp add: drainFrom_def hostMessages_rounds)

lemma drainFrom_step: "k < n \<Longrightarrow> drainFrom k n = [Runs k, WriteDone k] @ drainFrom (Suc k) n"
  by (simp add: drainFrom_def upt_conv_Cons)

text \<open>One round: the next waiting call runs and its write completes.\<close>

lemma drain_round:
  assumes "chainInv w" and "quiet w" and "length (serverWrites w) < length (upstreamCalls w)"
  shows "\<exists>w2. loop [Runs (length (serverWrites w)), WriteDone (length (serverWrites w))] w = Some w2
           \<and> chainInv w2 \<and> quiet w2 \<and> length (serverWrites w2) = Suc (length (serverWrites w))
           \<and> length (upstreamCalls w2) = length (upstreamCalls w)
           \<and> map callMessage (upstreamCalls w2) = map callMessage (upstreamCalls w)"
proof -
  let ?k = "length (serverWrites w)"
  let ?w1 = "(setState w ?k Writing)\<lparr>serverWrites := serverWrites w
                @ [callMessage (upstreamCalls w ! ?k)]\<rparr>"
  let ?w2 = "setState ?w1 ?k Fulfilled"
  from assms(1) have l: "linked w" and o: "ordered w" by (simp_all add: chainInv_def)
  from orderedD(2) [OF o assms(3)] quiet_nth [OF assms(2,3)]
  have wk: "inState w ?k Waiting" using assms(3) by (auto simp: inState_def)
  have rdy: "settled w (callAfter (upstreamCalls w ! ?k)) = Fulfilled"
  proof (cases ?k)
    case 0
    with l assms(3) show ?thesis by (simp add: linked_def settled_def)
  next
    case (Suc j)
    with assms(3) have j: "j < length (serverWrites w)" "j < length (upstreamCalls w)" by simp_all
    from orderedD(1) [OF o j(1)] quiet_nth [OF assms(2) j(2)]
    have "callState (upstreamCalls w ! j) = Fulfilled" by simp
    with l assms(3) Suc j show ?thesis by (simp add: linked_def settled_def)
  qed
  from wk rdy have 1: "loopStep (Runs ?k) w = Some ?w1" by simp
  from assms(3) have "inState ?w1 ?k Writing" by (simp add: inState_def)
  then have 2: "loopStep (WriteDone ?k) ?w1 = Some ?w2" by simp
  from 1 2 have "loop [Runs ?k, WriteDone ?k] w = Some ?w2" by simp
  moreover from loopStep_chainInv [OF loopStep_chainInv [OF assms(1) 1] 2] have "chainInv ?w2" .
  moreover have "quiet ?w2"
    using assms(2,3) by (simp add: quiet_def list_all_length)
  ultimately show ?thesis by (intro exI [of _ ?w2]) simp
qed

lemma drainFrom_done:
  assumes "chainInv w" and "quiet w"
  shows "\<exists>w'. loop (drainFrom (length (serverWrites w)) (length (upstreamCalls w))) w = Some w'
           \<and> chainInv w' \<and> allDone w'
           \<and> map callMessage (upstreamCalls w') = map callMessage (upstreamCalls w)"
  using assms
proof (induction "length (upstreamCalls w) - length (serverWrites w)" arbitrary: w)
  case 0
  from 0(2) have o: "ordered w" and "length (serverWrites w) \<le> length (upstreamCalls w)"
    by (simp_all add: chainInv_def issued_def)
  with 0(1) have k: "length (serverWrites w) = length (upstreamCalls w)" by simp
  have "allDone w"
    unfolding allDone_def list_all_length
  proof (intro allI impI)
    fix i assume i: "i < length (upstreamCalls w)"
    with k orderedD(1) [OF o, of i] quiet_nth [OF 0(3) i]
    show "callState (upstreamCalls w ! i) = Fulfilled" by simp
  qed
  with 0(2) k show ?case by (simp add: drainFrom_def)
next
  case (Suc d)
  then have k: "length (serverWrites w) < length (upstreamCalls w)" by simp
  from drain_round [OF Suc.prems k] obtain w2
    where r: "loop [Runs (length (serverWrites w)), WriteDone (length (serverWrites w))] w = Some w2"
      and inv: "chainInv w2" "quiet w2"
      and len: "length (serverWrites w2) = Suc (length (serverWrites w))"
        "length (upstreamCalls w2) = length (upstreamCalls w)"
      and msg: "map callMessage (upstreamCalls w2) = map callMessage (upstreamCalls w)"
    by blast
  from Suc.hyps(2) len have "d = length (upstreamCalls w2) - length (serverWrites w2)" by simp
  from Suc.hyps(1) [OF this inv] len obtain w'
    where "loop (drainFrom (Suc (length (serverWrites w))) (length (upstreamCalls w))) w2 = Some w'"
      "chainInv w'" "allDone w'"
      "map callMessage (upstreamCalls w') = map callMessage (upstreamCalls w2)"
    by auto
  with r msg show ?case
    unfolding drainFrom_step [OF k] loop_append by (intro exI [of _ w']) simp
qed

text \<open>When no write has failed, a write can be under way only for the last call started.\<close>

lemma noFailure_quiet:
  assumes "chainInv w" and "noFailure w" and "\<not> inState w (length (serverWrites w) - 1) Writing"
  shows "quiet w"
  unfolding quiet_def list_all_length
proof (intro allI impI)
  fix i assume i: "i < length (upstreamCalls w)"
  from assms(1) have o: "ordered w" by (simp add: chainInv_def)
  from assms(2) i have nr: "callState (upstreamCalls w ! i) \<noteq> Rejected"
    by (simp add: noFailure_def list_all_length)
  have "callState (upstreamCalls w ! i) \<noteq> Writing"
  proof
    assume wr: "callState (upstreamCalls w ! i) = Writing"
    with i have iw: "inState w i Writing" by (simp add: inState_def)
    from ordered_started [OF o] iw have ik: "i < length (serverWrites w)" by blast
    with assms(3) iw have "i < length (serverWrites w) - 1" by (cases "i = length (serverWrites w) - 1") auto
    moreover from ik chainInv_prefix(2) [OF assms(1)]
    have l: "length (serverWrites w) - 1 < length (upstreamCalls w)"
      "length (serverWrites w) - 1 < length (serverWrites w)" by simp_all
    moreover from orderedD(1) [OF o l(2)] assms(2,3) l(1)
    have "inState w (length (serverWrites w) - 1) Fulfilled"
      by (cases "callState (upstreamCalls w ! (length (serverWrites w) - 1))")
        (simp_all add: inState_def noFailure_def list_all_length)
    ultimately have "callState (upstreamCalls w ! i) = Fulfilled"
      by (blast intro: ordered_before [OF o])
    with wr show False by simp
  qed
  with nr show "callState (upstreamCalls w ! i) = Fulfilled \<or> callState (upstreamCalls w ! i) = Waiting"
    by (cases "callState (upstreamCalls w ! i)") simp_all
qed

lemma drain_done:
  assumes "chainInv w" and "noFailure w"
  shows "\<exists>w'. loop (drain w) w = Some w' \<and> chainInv w' \<and> allDone w'
           \<and> map callMessage (upstreamCalls w') = map callMessage (upstreamCalls w)"
proof (cases "inState w (length (serverWrites w) - 1) Writing")
  case False
  from drainFrom_done [OF assms(1) noFailure_quiet [OF assms False]] False
  show ?thesis by (simp add: drain_def Let_def)
next
  case True
  let ?i = "length (serverWrites w) - 1"
  let ?w1 = "setState w ?i Fulfilled"
  from True have 1: "loopStep (WriteDone ?i) w = Some ?w1" by simp
  from loopStep_chainInv [OF assms(1) 1] have inv: "chainInv ?w1" .
  have nf: "noFailure ?w1" using assms(2) by (simp add: noFailure_def list_all_length)
  have "\<not> inState ?w1 (length (serverWrites ?w1) - 1) Writing"
    using True by (simp add: inState_def)
  from drainFrom_done [OF inv noFailure_quiet [OF inv nf this]] 1 True
  show ?thesis by (simp add: drain_def Let_def)
qed

lemma hostMessages_drain [simp]: "hostMessages (drain w) = []"
  by (simp add: drain_def Let_def)

section \<open>Properties\<close>

text \<open>
  C15.  Writes to the application are serialised by the chain of promises.
  Start from a pump that has not been sent anything and let the host call
  \<^verbatim>\<open>sendBytes\<close>, and the event loop run continuations and complete or fail
  writes, in any order the loop allows.  Then the writes started on the
  connection to the application are the host's messages in the order of its
  calls, up to some call; at most one write is under way at any time; and once
  every write has completed, every message has been written.
\<close>

theorem websocket_writes_in_order:
  assumes "idle w" and "loop es w = Some w'"
  shows "serverWrites w' = take (length (serverWrites w')) (hostMessages es)
       \<and> length (serverWrites w') \<le> length (hostMessages es)
       \<and> (\<forall>i j. inState w' i Writing \<and> inState w' j Writing \<longrightarrow> i = j)
       \<and> (allDone w' \<longrightarrow> serverWrites w' = hostMessages es)"
proof -
  from loop_chainInv [OF idle_chainInv [OF assms(1)] assms(2)] have inv: "chainInv w'" .
  from loop_messages [OF assms(2)] assms(1)
  have m: "map callMessage (upstreamCalls w') = hostMessages es" by (simp add: idle_def)
  from arg_cong [OF m, of length] have len: "length (hostMessages es) = length (upstreamCalls w')"
    by simp
  have "serverWrites w' = take (length (serverWrites w')) (hostMessages es)"
    using chainInv_prefix(1) [OF inv] unfolding m .
  moreover have "length (serverWrites w') \<le> length (hostMessages es)"
    using chainInv_prefix(2) [OF inv] unfolding len .
  moreover have "\<forall>i j. inState w' i Writing \<and> inState w' j Writing \<longrightarrow> i = j"
    using chainInv_one_write [OF inv] by blast
  moreover have "allDone w' \<longrightarrow> serverWrites w' = hostMessages es"
    using chainInv_allDone [OF inv] m by simp
  ultimately show ?thesis by blast
qed

lemma loop_echoEvents:
  "loop echoEvents newWebSocketPump =
     Some \<lparr>serverWrites = [''abc'', ''de''], clientSends = [], clientStreamHeld = True,
           upstreamOp = Some 2,
           upstreamCalls = [\<lparr>callMessage = ''abc'', callAfter = None, callState = Fulfilled\<rparr>,
                            \<lparr>callMessage = ''de'', callAfter = Some 0, callState = Writing\<rparr>,
                            \<lparr>callMessage = ''f'', callAfter = Some 1, callState = Waiting\<rparr>]\<rparr>"
  by (simp add: echoEvents_def newWebSocketPump_def sendBytes_def setState_def inState_def
      settled_def)

theorem websocket_writes_in_order_witness:
  "\<exists>w'. loop echoEvents newWebSocketPump = Some w'
     \<and> serverWrites w' = take 2 [''abc'', ''de'', ''f'']
     \<and> (\<forall>i j. inState w' i Writing \<and> inState w' j Writing \<longrightarrow> i = j)"
proof -
  obtain w' where l: "loop echoEvents newWebSocketPump = Some w'"
    and n: "length (serverWrites w') = 2" by (simp add: loop_echoEvents)
  have h: "hostMessages echoEvents = [''abc'', ''de'', ''f'']" by (simp add: echoEvents_def)
  from websocket_writes_in_order [OF idle_new l] l show ?thesis
    unfolding n h by blast
qed

text \<open>
  C32.  Every message is written in the end.  In a state reached as above in
  which no write has failed, the schedule \<open>drain\<close>, which holds no call of the
  host, is accepted by the event loop and leads to a state in which every
  write has completed and the writes made are exactly the host's messages,
  in order.
\<close>

theorem websocket_writes_drain:
  assumes "idle w" and "loop es w = Some w'" and "noFailure w'"
  shows "\<exists>w''. loop (drain w') w' = Some w'' \<and> allDone w''
           \<and> serverWrites w'' = hostMessages es \<and> hostMessages (drain w') = []"
proof -
  from loop_chainInv [OF idle_chainInv [OF assms(1)] assms(2)] have inv: "chainInv w'" .
  from loop_messages [OF assms(2)] assms(1)
  have m: "map callMessage (upstreamCalls w') = hostMessages es" by (simp add: idle_def)
  from drain_done [OF inv assms(3)] obtain w'' where d: "loop (drain w') w' = Some w''"
    and i: "chainInv w''" and a: "allDone w''"
    and m': "map callMessage (upstreamCalls w'') = map callMessage (upstreamCalls w')"
    by blast
  from chainInv_allDone [OF i a] m m' have "serverWrites w'' = hostMessages es" by simp
  with d a show ?thesis by simp
qed

theorem websocket_writes_drain_witness:
  "\<exists>w' w''. loop echoEvents newWebSocketPump = Some w' \<and> noFailure w'
     \<and> drain w' = [WriteDone 1, Runs 2, WriteDone 2]
     \<and> loop (drain w') w' = Some w'' \<and> serverWrites w'' = [''abc'', ''de'', ''f'']"
proof -
  obtain w' where l: "loop echoEvents newWebSocketPump = Some w'"
    and n: "noFailure w'" and d: "drain w' = [WriteDone 1, Runs 2, WriteDone 2]"
    by (simp add: loop_echoEvents noFailure_def drain_def drainFrom_def inState_def upt_conv_Cons)
  have h: "hostMessages echoEvents = [''abc'', ''de'', ''f'']" by (simp add: echoEvents_def)
  from websocket_writes_drain [OF idle_new l n] l n d show ?thesis
    unfolding h by blast
qed

end
