(* ===== verification/Web_Session.thy ===== *)
theory Web_Session
  imports Response_Build Request_Stream WebSocket_Pump
begin

text \<open>
  \<^verbatim>\<open>WebSessionImpl\<close> (lines 902-1398): the session's identity, the request
  head built by \<^verbatim>\<open>makeHeaders\<close> and \<^verbatim>\<open>addCommonHeaders\<close>, the request of every
  verb, the WebSocket request, and what is done with the response in
  \<^verbatim>\<open>sendRequest\<close>, \<^verbatim>\<open>sendOptionsRequest\<close>, \<^verbatim>\<open>openWebSocket\<close> and
  \<^verbatim>\<open>RequestStreamImpl::getResponse\<close>.

  The parameters of a call are the fields of the call's parameter structure
  the method reads.  A quality value of an accepted type is a 32-bit float in
  the interface; the program only tests whether it is 1.0 and prints it, so
  it is \<open>One\<close> or \<open>Other txt\<close> with the text printed.  The names of the
  pronoun enumerants come from the compiled schema and are a parameter.  The
  functions \<^verbatim>\<open>extractHostFromUrl\<close> and \<^verbatim>\<open>extractProtocolFromUrl\<close> are from
  \<^verbatim>\<open>util.h\<close>.  A connection is the list of the chunks the application will
  send; connecting never fails here.
\<close>

section \<open>The session and the context of a call\<close>

record WebSessionImpl =
  sessionId :: string
  tabId :: string
  userDisplayName :: string
  userHandle :: string
  userPicture :: string
  userPronouns :: nat
  userId :: "string option"
  permissions :: string
  basePath :: string
  userAgent :: string
  acceptLanguages :: string
  rootPath :: string
  remoteAddress :: "string option"

datatype QValue = One | Other string

record AcceptedType =
  acceptMimeType :: string
  acceptQValue :: QValue

datatype ETagPrecondition =
    PRE_NONE
  | EXISTS
  | DOESNT_EXIST
  | MATCHES_ONE_OF "ETag list"
  | MATCHES_NONE_OF "ETag list"

record Context =
  ctxCookies :: "(string \<times> string) list"
  ctxAccept :: "AcceptedType list"
  ctxAdditionalHeaders :: "(string \<times> string) list"
  ctxETagPrecondition :: ETagPrecondition

record UserInfo =
  displayName :: string
  preferredHandle :: string
  pictureUrl :: string
  pronouns :: nat
  identityId :: "bytes option"

definition newWebSession ::
  "UserInfo \<Rightarrow> string \<Rightarrow> string \<Rightarrow> string \<Rightarrow> string \<Rightarrow> string \<Rightarrow> string \<Rightarrow> string
     \<Rightarrow> string option \<Rightarrow> WebSessionImpl result" where
  "newWebSession userInfo sessionId' tabId' basePath' userAgent' acceptLanguages' rootPath'
       permissions' remoteAddress' =
     (let s = \<lparr>sessionId = sessionId', tabId = tabId',
               userDisplayName = percentEncode (displayName userInfo),
               userHandle = preferredHandle userInfo, userPicture = pictureUrl userInfo,
               userPronouns = pronouns userInfo, userId = None, permissions = permissions',
               basePath = basePath', userAgent = userAgent', acceptLanguages = acceptLanguages',
               rootPath = rootPath', remoteAddress = remoteAddress'\<rparr>
      in case identityId userInfo of
           None \<Rightarrow> Inr s
         | Some ident \<Rightarrow>
             if length ident = 32 then Inr (s\<lparr>userId := Some (hexEncode (take 16 ident))\<rparr>)
             else Inl BadIdentityId)"

section \<open>The request head\<close>

definition extractHostFromUrl :: "string \<Rightarrow> string result" where
  "extractHostFromUrl url =
     (let rest = dropWhile isLower url in
      if startsWith rest ''://''
      then Inr (takeWhile (\<lambda>c. c \<noteq> CHR ''/'') (drop 3 rest))
      else Inl (BadBaseUrl url))"

definition extractProtocolFromUrl :: "string \<Rightarrow> string result" where
  "extractProtocolFromUrl url =
     (if CHR '':'' \<in> set url then Inr (takeWhile (\<lambda>c. c \<noteq> CHR '':'') url)
      else Inl (BadBaseUrl url))"

definition pronounLines :: "string list \<Rightarrow> nat \<Rightarrow> string list" where
  "pronounLines enumerants pronounValue =
     (if pronounValue > 0 \<and> pronounValue < length enumerants
      then [''X-Sandstorm-User-Pronouns: '' @ enumerants ! pronounValue] else [])"

definition userLines :: "string list \<Rightarrow> WebSessionImpl \<Rightarrow> string list" where
  "userLines enumerants s =
     (case userId s of
        None \<Rightarrow> []
      | Some u \<Rightarrow>
          [''X-Sandstorm-User-Id: '' @ u]
          @ (if userHandle s \<noteq> [] then [''X-Sandstorm-Preferred-Handle: '' @ userHandle s] else [])
          @ (if userPicture s \<noteq> [] then [''X-Sandstorm-User-Picture: '' @ userPicture s] else [])
          @ pronounLines enumerants (userPronouns s))"

definition hostLines :: "WebSessionImpl \<Rightarrow> string list result" where
  "hostLines s =
     (if basePath s \<noteq> [] then
        rbind (extractHostFromUrl (basePath s)) (\<lambda>host.
        rbind (extractProtocolFromUrl (basePath s)) (\<lambda>proto.
          Inr [''X-Sandstorm-Base-Path: '' @ basePath s, ''Host: '' @ host,
               ''X-Forwarded-Proto: '' @ proto]))
      else Inr [''Host: sandbox''])"

definition acceptText :: "AcceptedType \<Rightarrow> string" where
  "acceptText c =
     (case acceptQValue c of
        One \<Rightarrow> acceptMimeType c
      | Other q \<Rightarrow> acceptMimeType c @ ''; q='' @ q)"

definition preconditionLines :: "ETagPrecondition \<Rightarrow> string list" where
  "preconditionLines pre =
     (case pre of
        PRE_NONE \<Rightarrow> []
      | EXISTS \<Rightarrow> [''If-Match: *'']
      | DOESNT_EXIST \<Rightarrow> [''If-None-Match: *'']
      | MATCHES_ONE_OF es \<Rightarrow> [''If-Match: '' @ renderETags es]
      | MATCHES_NONE_OF es \<Rightarrow> [''If-None-Match: '' @ renderETags es])"

definition contextLines :: "Context \<Rightarrow> string list" where
  "contextLines context =
     (if ctxCookies context \<noteq> []
      then [''Cookie: '' @ strArray (map (\<lambda>(k, v). k @ ''='' @ v) (ctxCookies context)) ''; '']
      else [])
     @ (if ctxAccept context \<noteq> []
        then [''Accept: '' @ strArray (map acceptText (ctxAccept context)) '', '']
        else [''Accept: */*''])
     @ map (\<lambda>(nm, v). nm @ '': '' @ v) (ctxAdditionalHeaders context)
     @ preconditionLines (ctxETagPrecondition context)"

definition addCommonHeaders ::
  "string list \<Rightarrow> WebSessionImpl \<Rightarrow> string list \<Rightarrow> Context \<Rightarrow> string list result" where
  "addCommonHeaders enumerants s lines context =
     rbind (hostLines s) (\<lambda>host.
       Inr (lines
            @ (if userAgent s \<noteq> [] then [''User-Agent: '' @ userAgent s] else [])
            @ [''X-Sandstorm-Tab-Id: '' @ tabId s, ''X-Sandstorm-Username: '' @ userDisplayName s]
            @ userLines enumerants s
            @ [''X-Sandstorm-Permissions: '' @ permissions s]
            @ host
            @ [''X-Sandstorm-Session-Id: '' @ sessionId s]
            @ (case remoteAddress s of Some addr \<Rightarrow> [''X-Real-IP: '' @ addr] | None \<Rightarrow> [])
            @ contextLines context
            @ [[], []]))"

definition makeHeaders ::
  "string list \<Rightarrow> WebSessionImpl \<Rightarrow> string \<Rightarrow> string \<Rightarrow> Context \<Rightarrow> string list \<Rightarrow> string result" where
  "makeHeaders enumerants s method path context extraHeaders =
     rbind (addCommonHeaders enumerants s
              ([method @ '' '' @ rootPath s @ path @ '' HTTP/1.1'', ''Connection: close'']
               @ filter (\<lambda>h. h \<noteq> []) extraHeaders
               @ [''Accept-Encoding: gzip'']
               @ (if acceptLanguages s \<noteq> [] then [''Accept-Language: '' @ acceptLanguages s] else []))
              context)
       (\<lambda>lines. Inr (strArray lines CRLF))"

definition makeDestinationHeader :: "WebSessionImpl \<Rightarrow> string \<Rightarrow> string result" where
  "makeDestinationHeader s destination =
     (if list_all (\<lambda>c. schar c > 32 \<and> c \<noteq> CHR '','') destination
      then Inr (''Destination: '' @ basePath s @ destination)
      else Inl (InvalidDestination destination))"

definition makeOverwriteHeader :: "bool \<Rightarrow> string" where
  "makeOverwriteHeader noOverwrite = (if noOverwrite then ''Overwrite: F'' else ''Overwrite: T'')"

definition makeDepthHeader :: "bool \<Rightarrow> string" where
  "makeDepthHeader shallow = (if shallow then ''Depth: 0'' else ''Depth: infinity'')"

section \<open>The verbs\<close>

record PostContent =
  postMimeType :: string
  postContent :: bytes
  postEncoding :: "string option"

datatype PropfindDepth = INFINITY | ZERO | ONE

datatype WebCall =
    Get string bool
  | Post string PostContent
  | Put string PostContent
  | Patch string PostContent
  | Delete string
  | Propfind string string PropfindDepth
  | Proppatch string string
  | Mkcol string PostContent
  | Copy string string bool bool
  | Move string string bool
  | Lock string string bool
  | Unlock string string
  | Acl string string
  | Report string PostContent

definition contentHeaders :: "PostContent \<Rightarrow> string list" where
  "contentHeaders content =
     [''Content-Type: '' @ postMimeType content,
      ''Content-Length: '' @ strNat (length (postContent content)),
      (case postEncoding content of Some e \<Rightarrow> ''Content-Encoding: '' @ e | None \<Rightarrow> [])]"

definition xmlHeaders :: "string \<Rightarrow> string list" where
  "xmlHeaders xml =
     [''Content-Type: application/xml;charset=utf-8'', ''Content-Length: '' @ strNat (length xml)]"

definition depthText :: "PropfindDepth \<Rightarrow> string" where
  "depthText d = (case d of INFINITY \<Rightarrow> ''infinity'' | ZERO \<Rightarrow> ''0'' | ONE \<Rightarrow> ''1'')"

definition withBody ::
  "string list \<Rightarrow> WebSessionImpl \<Rightarrow> string \<Rightarrow> string \<Rightarrow> Context \<Rightarrow> string list \<Rightarrow> bytes
     \<Rightarrow> bytes result" where
  "withBody enumerants s method path context extraHeaders content =
     rbind (makeHeaders enumerants s method path context extraHeaders)
       (\<lambda>httpRequest. Inr (toBytes httpRequest content))"

fun requestOf :: "string list \<Rightarrow> WebSessionImpl \<Rightarrow> WebCall \<Rightarrow> Context \<Rightarrow> bytes result" where
  "requestOf en s (Get path ignoreBody) ctx =
     withBody en s (if ignoreBody then ''HEAD'' else ''GET'') path ctx [] []"
| "requestOf en s (Post path content) ctx =
     withBody en s ''POST'' path ctx (contentHeaders content) (postContent content)"
| "requestOf en s (Put path content) ctx =
     withBody en s ''PUT'' path ctx (contentHeaders content) (postContent content)"
| "requestOf en s (Patch path content) ctx =
     withBody en s ''PATCH'' path ctx (contentHeaders content) (postContent content)"
| "requestOf en s (Delete path) ctx = withBody en s ''DELETE'' path ctx [] []"
| "requestOf en s (Propfind path xml depth) ctx =
     withBody en s ''PROPFIND'' path ctx (xmlHeaders xml @ [''Depth: '' @ depthText depth]) xml"
| "requestOf en s (Proppatch path xml) ctx = withBody en s ''PROPPATCH'' path ctx (xmlHeaders xml) xml"
| "requestOf en s (Mkcol path content) ctx =
     withBody en s ''MKCOL'' path ctx (contentHeaders content) (postContent content)"
| "requestOf en s (Copy path destination noOverwrite shallow) ctx =
     rbind (makeDestinationHeader s destination) (\<lambda>dest.
       withBody en s ''COPY'' path ctx
         [dest, makeOverwriteHeader noOverwrite, makeDepthHeader shallow] [])"
| "requestOf en s (Move path destination noOverwrite) ctx =
     rbind (makeDestinationHeader s destination) (\<lambda>dest.
       withBody en s ''MOVE'' path ctx [dest, makeOverwriteHeader noOverwrite] [])"
| "requestOf en s (Lock path xml shallow) ctx =
     withBody en s ''LOCK'' path ctx (xmlHeaders xml @ [makeDepthHeader shallow]) xml"
| "requestOf en s (Unlock path lockToken) ctx =
     withBody en s ''UNLOCK'' path ctx [''Lock-Token: '' @ lockToken] []"
| "requestOf en s (Acl path xml) ctx = withBody en s ''ACL'' path ctx (xmlHeaders xml) xml"
| "requestOf en s (Report path content) ctx =
     withBody en s ''REPORT'' path ctx (contentHeaders content) (postContent content)"

definition optionsRequest :: "string list \<Rightarrow> WebSessionImpl \<Rightarrow> string \<Rightarrow> Context \<Rightarrow> string result" where
  "optionsRequest en s path ctx = makeHeaders en s ''OPTIONS'' path ctx []"

definition streamingRequest ::
  "string list \<Rightarrow> WebSessionImpl \<Rightarrow> string \<Rightarrow> string \<Rightarrow> string \<Rightarrow> string option \<Rightarrow> Context
     \<Rightarrow> RequestStreamImpl result" where
  "streamingRequest en s method path mimeType encoding ctx =
     rbind (makeHeaders en s method path ctx
              [''Content-Type: '' @ mimeType,
               (case encoding of Some e \<Rightarrow> ''Content-Encoding: '' @ e | None \<Rightarrow> [])])
       (\<lambda>httpRequest. Inr (newRequestStream httpRequest))"

definition webSocketRequest ::
  "string list \<Rightarrow> WebSessionImpl \<Rightarrow> string \<Rightarrow> string list \<Rightarrow> Context \<Rightarrow> bytes result" where
  "webSocketRequest en s path protocols ctx =
     rbind (addCommonHeaders en s
              ([''GET '' @ rootPath s @ path @ '' HTTP/1.1'', ''Upgrade: websocket'',
                ''Connection: Upgrade'', ''Sec-WebSocket-Key: mj9i153gxeYNlGDoKdoXOQ=='']
               @ (if protocols \<noteq> [] then [''Sec-WebSocket-Protocol: '' @ strArray protocols '', ''] else [])
               @ [''Sec-WebSocket-Version: 13''])
              ctx)
       (\<lambda>lines. Inr (toBytes (strArray lines CRLF) []))"

section \<open>The response of a call\<close>

record Exchange =
  exchangeResult :: "Response result"
  exchangeStream :: "StreamCall list"
  exchangeLogged :: "error option"

definition received :: "'l http_lib \<Rightarrow> 'l \<Rightarrow> bytes list \<Rightarrow> ('l HttpParser \<times> bytes list) result" where
  "received lib l stream =
     rbind (readResponse lib (newHttpParser l) stream) (\<lambda>(remainder, parser, rest).
       if remainder \<noteq> [] then Inl RemainderNotEmpty else Inr (parser, rest))"

text \<open>
  The parser is alive after \<^verbatim>\<open>build\<close> only through the handle, and \<^verbatim>\<open>build\<close>
  stores the handle only as the stream of a content body.  In every other
  case, and when \<^verbatim>\<open>build\<close> throws, the parser is destroyed when the
  continuation returns, and the pump it has started is cancelled before it
  reads: what has reached the response stream is then what \<^verbatim>\<open>pumpStream\<close>
  wrote at once.
\<close>

definition holdsHandle :: "Response \<Rightarrow> bool" where
  "holdsHandle response =
     (case responseVariant response of
        ContentResponse c \<Rightarrow> contentBody c = Stream
      | other \<Rightarrow> False)"

definition sendRequest :: "StatusCodes \<Rightarrow> 'l http_lib \<Rightarrow> 'l \<Rightarrow> bytes list \<Rightarrow> Exchange" where
  "sendRequest codes lib l stream =
     (case received lib l stream of
        Inl err \<Rightarrow> \<lparr>exchangeResult = Inl err, exchangeStream = [], exchangeLogged = None\<rparr>
      | Inr (parser, rest) \<Rightarrow>
          (let started = (if isStreaming parser then flushBody parser else parser) in
           case build codes started of
             Inl err \<Rightarrow>
               \<lparr>exchangeResult = Inl err, exchangeStream = responseStream started,
                exchangeLogged = None\<rparr>
           | Inr response \<Rightarrow>
               if holdsHandle response
               then (case pumpStream lib parser rest of
                       (pumped, logged) \<Rightarrow>
                         \<lparr>exchangeResult = Inr response, exchangeStream = responseStream pumped,
                          exchangeLogged = logged\<rparr>)
               else \<lparr>exchangeResult = Inr response, exchangeStream = responseStream started,
                     exchangeLogged = None\<rparr>))"

definition sendOptionsRequest :: "'l http_lib \<Rightarrow> 'l \<Rightarrow> bytes list \<Rightarrow> Options result" where
  "sendOptionsRequest lib l stream =
     rbind (received lib l stream) (\<lambda>(parser, rest). buildOptions parser)"

definition openWebSocket ::
  "'l http_lib \<Rightarrow> 'l \<Rightarrow> bytes list \<Rightarrow> (string list \<times> WebSocketPump) result" where
  "openWebSocket lib l stream =
     rbind (readResponse lib (newHttpParser l) stream) (\<lambda>(remainder, parser, rest).
       rbind (buildForWebSocket parser) (\<lambda>protocols.
         Inr (protocols,
              pump (if length remainder > 0 then sendData newWebSocketPump remainder
                    else newWebSocketPump) rest)))"

definition getResponse ::
  "StatusCodes \<Rightarrow> 'l http_lib \<Rightarrow> 'l \<Rightarrow> RequestStreamImpl \<Rightarrow> bytes list
     \<Rightarrow> RequestStreamImpl \<times> Exchange" where
  "getResponse codes lib l rs stream =
     (if getResponseCalled rs
      then (rs, \<lparr>exchangeResult = Inl GetResponseTwice, exchangeStream = [], exchangeLogged = None\<rparr>)
      else (rs\<lparr>getResponseCalled := True\<rparr>, sendRequest codes lib l stream))"

section \<open>Specification\<close>

definition hasLine :: "string \<Rightarrow> string \<Rightarrow> bool" where
  "hasLine h x = (\<exists>pre post. h = pre @ CRLF @ x @ CRLF @ post)"

definition requestLine :: "WebSessionImpl \<Rightarrow> string \<Rightarrow> string \<Rightarrow> string" where
  "requestLine s method path = method @ '' '' @ rootPath s @ path @ '' HTTP/1.1''"

definition urlLike :: "string \<Rightarrow> bool" where
  "urlLike url = startsWith (dropWhile isLower url) ''://''"

fun callBody :: "WebCall \<Rightarrow> bytes option" where
  "callBody (Post path content) = Some (postContent content)"
| "callBody (Put path content) = Some (postContent content)"
| "callBody (Patch path content) = Some (postContent content)"
| "callBody (Mkcol path content) = Some (postContent content)"
| "callBody (Report path content) = Some (postContent content)"
| "callBody (Propfind path xml depth) = Some xml"
| "callBody (Proppatch path xml) = Some xml"
| "callBody (Lock path xml shallow) = Some xml"
| "callBody (Acl path xml) = Some xml"
| "callBody _ = None"

fun callMethod :: "WebCall \<Rightarrow> string" where
  "callMethod (Get path ignoreBody) = (if ignoreBody then ''HEAD'' else ''GET'')"
| "callMethod (Post path content) = ''POST''"
| "callMethod (Put path content) = ''PUT''"
| "callMethod (Patch path content) = ''PATCH''"
| "callMethod (Delete path) = ''DELETE''"
| "callMethod (Propfind path xml depth) = ''PROPFIND''"
| "callMethod (Proppatch path xml) = ''PROPPATCH''"
| "callMethod (Mkcol path content) = ''MKCOL''"
| "callMethod (Copy path destination noOverwrite shallow) = ''COPY''"
| "callMethod (Move path destination noOverwrite) = ''MOVE''"
| "callMethod (Lock path xml shallow) = ''LOCK''"
| "callMethod (Unlock path lockToken) = ''UNLOCK''"
| "callMethod (Acl path xml) = ''ACL''"
| "callMethod (Report path content) = ''REPORT''"

fun callPath :: "WebCall \<Rightarrow> string" where
  "callPath (Get path ignoreBody) = path"
| "callPath (Post path content) = path"
| "callPath (Put path content) = path"
| "callPath (Patch path content) = path"
| "callPath (Delete path) = path"
| "callPath (Propfind path xml depth) = path"
| "callPath (Proppatch path xml) = path"
| "callPath (Mkcol path content) = path"
| "callPath (Copy path destination noOverwrite shallow) = path"
| "callPath (Move path destination noOverwrite) = path"
| "callPath (Lock path xml shallow) = path"
| "callPath (Unlock path lockToken) = path"
| "callPath (Acl path xml) = path"
| "callPath (Report path content) = path"

fun callDestination :: "WebCall \<Rightarrow> string option" where
  "callDestination (Copy path destination noOverwrite shallow) = Some destination"
| "callDestination (Move path destination noOverwrite) = Some destination"
| "callDestination _ = None"

fun callHeaders :: "WebSessionImpl \<Rightarrow> WebCall \<Rightarrow> string list" where
  "callHeaders s (Get path ignoreBody) = []"
| "callHeaders s (Post path content) = contentHeaders content"
| "callHeaders s (Put path content) = contentHeaders content"
| "callHeaders s (Patch path content) = contentHeaders content"
| "callHeaders s (Delete path) = []"
| "callHeaders s (Propfind path xml depth) = xmlHeaders xml @ [''Depth: '' @ depthText depth]"
| "callHeaders s (Proppatch path xml) = xmlHeaders xml"
| "callHeaders s (Mkcol path content) = contentHeaders content"
| "callHeaders s (Copy path destination noOverwrite shallow) =
     [''Destination: '' @ basePath s @ destination, makeOverwriteHeader noOverwrite,
      makeDepthHeader shallow]"
| "callHeaders s (Move path destination noOverwrite) =
     [''Destination: '' @ basePath s @ destination, makeOverwriteHeader noOverwrite]"
| "callHeaders s (Lock path xml shallow) = xmlHeaders xml @ [makeDepthHeader shallow]"
| "callHeaders s (Unlock path lockToken) = [''Lock-Token: '' @ lockToken]"
| "callHeaders s (Acl path xml) = xmlHeaders xml"
| "callHeaders s (Report path content) = contentHeaders content"

definition validDestination :: "string \<Rightarrow> bool" where
  "validDestination d = list_all (\<lambda>c. 33 \<le> uchar c \<and> uchar c \<le> 127 \<and> c \<noteq> CHR '','') d"

definition anonymous :: WebSessionImpl where
  "anonymous =
     \<lparr>sessionId = ''s1'', tabId = ''t1'', userDisplayName = ''Anonymous%20User'', userHandle = [],
      userPicture = [], userPronouns = 0, userId = None, permissions = ''read'', basePath = [],
      userAgent = [], acceptLanguages = [], rootPath = [], remoteAddress = None\<rparr>"

definition plainContext :: Context where
  "plainContext =
     \<lparr>ctxCookies = [], ctxAccept = [], ctxAdditionalHeaders = [], ctxETagPrecondition = PRE_NONE\<rparr>"

definition okCodes :: StatusCodes where
  "okCodes = [200 \<mapsto> ContentInfo 0]"

definition upgradeEvents :: "ParserEvent list" where
  "upgradeEvents =
     [SetStatusCode 101, OnStatus ''Switching Protocols'',
      OnHeaderField ''Sec-WebSocket-Protocol'', OnHeaderValue ''chat, superchat'',
      OnHeadersComplete, SetUpgrade True, OnMessageComplete]"

definition upgradeLib :: "nat http_lib" where
  "upgradeLib n buffer = (upgradeEvents, min n (length buffer), 0)"

definition notePost :: WebCall where
  "notePost = Post ''/note'' \<lparr>postMimeType = ''text/plain'', postContent = ''x'', postEncoding = None\<rparr>"

definition anonymousHead :: "string \<Rightarrow> string list \<Rightarrow> string" where
  "anonymousHead line extra =
     strArray ([line, ''Connection: close''] @ extra @
               [''Accept-Encoding: gzip'', ''X-Sandstorm-Tab-Id: t1'',
                ''X-Sandstorm-Username: Anonymous%20User'', ''X-Sandstorm-Permissions: read'',
                ''Host: sandbox'', ''X-Sandstorm-Session-Id: s1'', ''Accept: */*'', [], []]) CRLF"

section \<open>The request head: lemmas\<close>

lemma strArray_blank_lines:
  "ls \<noteq> [] \<Longrightarrow> strArray (ls @ [[], []]) CRLF = strArray ls CRLF @ CRLF @ CRLF"
  using strArray_snoc [of "ls @ [[]]" "[]" CRLF] strArray_snoc [of ls "[]" CRLF] by simp

lemma strArray_line:
  "a \<noteq> [] \<Longrightarrow> b \<noteq> [] \<Longrightarrow>
     strArray (a @ x # b) CRLF = strArray a CRLF @ CRLF @ x @ CRLF @ strArray b CRLF"
  using strArray_append [of a "x # b" CRLF] by (simp add: strArray_Cons)

lemma hasLine_strArray:
  "a \<noteq> [] \<Longrightarrow> b \<noteq> [] \<Longrightarrow> hasLine (strArray (a @ x # b) CRLF) x"
  unfolding hasLine_def strArray_line by blast

lemma hasLine_mem:
  assumes "x \<in> set ls" and "b \<noteq> []"
  shows "hasLine (strArray (l # ls @ b) CRLF) x"
proof -
  from assms(1) obtain u v where "ls = u @ x # v" by (auto simp: in_set_conv_decomp)
  then have "l # ls @ b = (l # u) @ x # (v @ b)" by simp
  with hasLine_strArray [of "l # u" "v @ b" x] assms(2) show ?thesis by simp
qed

lemma extractHostFromUrl_ok [simp]: "isOk (extractHostFromUrl url) \<longleftrightarrow> urlLike url"
  by (simp add: extractHostFromUrl_def urlLike_def Let_def)

lemma urlLike_colon: "urlLike url \<Longrightarrow> CHR '':'' \<in> set url"
proof -
  assume "urlLike url"
  then obtain t where "dropWhile isLower url = ''://'' @ t"
    by (auto simp: urlLike_def startsWith_iff)
  then have "CHR '':'' \<in> set (dropWhile isLower url)" by simp
  then show ?thesis by (rule set_dropWhileD)
qed

lemma hostLines_ok_iff: "isOk (hostLines s) \<longleftrightarrow> basePath s = [] \<or> urlLike (basePath s)"
  using urlLike_colon [of "basePath s"]
  by (auto simp: hostLines_def isOk_iff rbind_eq_Inr_iff extractProtocolFromUrl_def
      simp flip: extractHostFromUrl_ok)

lemma hostLines_Inl: "hostLines s = Inl e \<Longrightarrow> e = BadBaseUrl (basePath s)"
  by (auto simp: hostLines_def rbind_eq_Inl_iff extractProtocolFromUrl_def extractHostFromUrl_def
      Let_def split: if_splits)

lemma addCommonHeaders_Inr:
  assumes "addCommonHeaders en s lines ctx = Inr ls"
  shows "\<exists>mid. ls = lines @ mid @ [[], []]
           \<and> ''X-Sandstorm-Session-Id: '' @ sessionId s \<in> set mid
           \<and> ''X-Sandstorm-Username: '' @ userDisplayName s \<in> set mid
           \<and> ''X-Sandstorm-Permissions: '' @ permissions s \<in> set mid"
  using assms by (auto simp: addCommonHeaders_def rbind_eq_Inr_iff)

lemma addCommonHeaders_ok_iff:
  "isOk (addCommonHeaders en s lines ctx) \<longleftrightarrow> isOk (hostLines s)"
  by (auto simp: addCommonHeaders_def isOk_iff rbind_eq_Inr_iff)

lemma makeHeaders_ok_iff:
  "isOk (makeHeaders en s method path ctx extra) \<longleftrightarrow> basePath s = [] \<or> urlLike (basePath s)"
  using addCommonHeaders_ok_iff [of en s _ ctx]
  by (auto simp: makeHeaders_def isOk_iff rbind_eq_Inr_iff hostLines_ok_iff [symmetric])

lemma makeHeaders_Inl:
  "makeHeaders en s method path ctx extra = Inl e \<Longrightarrow> e = BadBaseUrl (basePath s)"
  by (auto simp: makeHeaders_def addCommonHeaders_def rbind_eq_Inl_iff dest: hostLines_Inl)

lemma makeHeaders_lines:
  assumes "makeHeaders en s method path ctx extra = Inr h"
  shows "\<exists>mid. h = strArray (requestLine s method path #
                     (''Connection: close'' # filter (\<lambda>x. x \<noteq> []) extra @ ''Accept-Encoding: gzip'' # mid)
                     @ [[], []]) CRLF
           \<and> ''X-Sandstorm-Session-Id: '' @ sessionId s \<in> set mid
           \<and> ''X-Sandstorm-Username: '' @ userDisplayName s \<in> set mid
           \<and> ''X-Sandstorm-Permissions: '' @ permissions s \<in> set mid"
proof -
  from assms obtain ls where
    ls: "addCommonHeaders en s
           ([requestLine s method path, ''Connection: close'']
            @ filter (\<lambda>h. h \<noteq> []) extra @ [''Accept-Encoding: gzip'']
            @ (if acceptLanguages s \<noteq> [] then [''Accept-Language: '' @ acceptLanguages s] else []))
           ctx = Inr ls"
    and h: "h = strArray ls CRLF"
    by (auto simp: makeHeaders_def rbind_eq_Inr_iff requestLine_def)
  from addCommonHeaders_Inr [OF ls] obtain mid where
    "ls = ([requestLine s method path, ''Connection: close'']
            @ filter (\<lambda>h. h \<noteq> []) extra @ [''Accept-Encoding: gzip'']
            @ (if acceptLanguages s \<noteq> [] then [''Accept-Language: '' @ acceptLanguages s] else []))
           @ mid @ [[], []]"
    and m: "''X-Sandstorm-Session-Id: '' @ sessionId s \<in> set mid"
      "''X-Sandstorm-Username: '' @ userDisplayName s \<in> set mid"
      "''X-Sandstorm-Permissions: '' @ permissions s \<in> set mid"
    by blast
  with h have "h = strArray (requestLine s method path #
                     (''Connection: close'' # filter (\<lambda>x. x \<noteq> []) extra @ ''Accept-Encoding: gzip'' #
                        ((if acceptLanguages s \<noteq> [] then [''Accept-Language: '' @ acceptLanguages s] else []) @ mid))
                     @ [[], []]) CRLF"
    by simp
  with m show ?thesis by (intro exI [of _ "(if acceptLanguages s \<noteq> [] then _ else []) @ mid"]) auto
qed

lemma makeHeaders_terminated:
  assumes "makeHeaders en s method path ctx extra = Inr h"
  shows "terminated h"
proof -
  from makeHeaders_lines [OF assms] obtain ls where
    "h = strArray (requestLine s method path # ls @ [[], []]) CRLF"
    by blast
  with strArray_blank_lines [of "requestLine s method path # ls"] show ?thesis
    by (simp add: terminated_def endsWith_iff)
qed

lemma makeHeaders_start:
  assumes "makeHeaders en s method path ctx extra = Inr h"
  shows "startsWith h (requestLine s method path @ CRLF @ ''Connection: close'' @ CRLF)"
proof -
  from makeHeaders_lines [OF assms] obtain ls where
    "h = strArray (requestLine s method path # (''Connection: close'' # ls) @ [[], []]) CRLF"
    by blast
  then show ?thesis by (simp add: strArray_Cons startsWith_iff)
qed

lemma makeHeaders_hasLine:
  assumes "makeHeaders en s method path ctx extra = Inr h"
  shows "hasLine h ''Connection: close''" and "hasLine h ''Accept-Encoding: gzip''"
    and "x \<in> set extra \<Longrightarrow> x \<noteq> [] \<Longrightarrow> hasLine h x"
    and "hasLine h (''X-Sandstorm-Session-Id: '' @ sessionId s)"
    and "hasLine h (''X-Sandstorm-Username: '' @ userDisplayName s)"
    and "hasLine h (''X-Sandstorm-Permissions: '' @ permissions s)"
proof -
  from makeHeaders_lines [OF assms] obtain mid where
    h: "h = strArray (requestLine s method path #
                     (''Connection: close'' # filter (\<lambda>x. x \<noteq> []) extra @ ''Accept-Encoding: gzip'' # mid)
                     @ [[], []]) CRLF"
    and m: "''X-Sandstorm-Session-Id: '' @ sessionId s \<in> set mid"
      "''X-Sandstorm-Username: '' @ userDisplayName s \<in> set mid"
      "''X-Sandstorm-Permissions: '' @ permissions s \<in> set mid"
    by blast
  have mem: "y \<in> set (''Connection: close'' # filter (\<lambda>x. x \<noteq> []) extra @ ''Accept-Encoding: gzip'' # mid)
      \<Longrightarrow> hasLine h y" for y
    unfolding h by (rule hasLine_mem) simp_all
  show "hasLine h ''Connection: close''" "hasLine h ''Accept-Encoding: gzip''"
    by (rule mem, simp)+
  show "x \<in> set extra \<Longrightarrow> x \<noteq> [] \<Longrightarrow> hasLine h x" by (rule mem) simp
  from m show "hasLine h (''X-Sandstorm-Session-Id: '' @ sessionId s)"
    "hasLine h (''X-Sandstorm-Username: '' @ userDisplayName s)"
    "hasLine h (''X-Sandstorm-Permissions: '' @ permissions s)"
    by (auto intro: mem)
qed

section \<open>The verbs: lemmas\<close>

lemma withBody_shape:
  assumes "withBody en s m path ctx extra content = Inr r"
  shows "\<exists>h. r = h @ content
           \<and> startsWith h (requestLine s m path @ CRLF @ ''Connection: close'' @ CRLF)
           \<and> terminated h \<and> (\<forall>x. x \<in> set extra \<and> x \<noteq> [] \<longrightarrow> hasLine h x)"
proof -
  from assms obtain h where h: "makeHeaders en s m path ctx extra = Inr h" and "r = h @ content"
    by (auto simp: withBody_def rbind_eq_Inr_iff toBytes_def)
  with makeHeaders_start [OF h] makeHeaders_terminated [OF h] makeHeaders_hasLine(3) [OF h]
  show ?thesis by blast
qed

lemma withBody_ok_iff:
  "isOk (withBody en s m path ctx extra content) \<longleftrightarrow> basePath s = [] \<or> urlLike (basePath s)"
  using makeHeaders_ok_iff [of en s m path ctx extra]
  by (auto simp: withBody_def isOk_iff rbind_eq_Inr_iff)

lemma schar_gt_32: "schar c > 32 \<longleftrightarrow> 33 \<le> uchar c \<and> uchar c \<le> 127"
  using uchar_less_256 [of c] by (auto simp: schar_def simp del: uchar_less_256)

lemma makeDestinationHeader_eq:
  "makeDestinationHeader s d =
     (if validDestination d then Inr (''Destination: '' @ basePath s @ d)
      else Inl (InvalidDestination d))"
  by (simp add: makeDestinationHeader_def validDestination_def schar_gt_32)

lemma requestOf_eq:
  "requestOf en s c ctx =
     (if (case callDestination c of Some d \<Rightarrow> validDestination d | None \<Rightarrow> True)
      then withBody en s (callMethod c) (callPath c) ctx (callHeaders s c)
             (case callBody c of Some b \<Rightarrow> b | None \<Rightarrow> [])
      else Inl (InvalidDestination (the (callDestination c))))"
  by (cases c) (simp_all add: makeDestinationHeader_eq)

lemma callHeaders_length:
  "callBody c = Some b \<Longrightarrow> ''Content-Length: '' @ strNat (length b) \<in> set (callHeaders s c)"
  by (cases c) (simp_all add: contentHeaders_def xmlHeaders_def)

lemma callHeaders_destination:
  "callDestination c = Some d \<Longrightarrow> ''Destination: '' @ basePath s @ d \<in> set (callHeaders s c)"
  by (cases c) simp_all

lemma requestOf_ok_iff:
  "isOk (requestOf en s c ctx) \<longleftrightarrow>
     (basePath s = [] \<or> urlLike (basePath s))
     \<and> (case callDestination c of Some d \<Rightarrow> validDestination d | None \<Rightarrow> True)"
  unfolding requestOf_eq by (simp add: withBody_ok_iff)

section \<open>The response: lemmas\<close>

lemma buildContent_flushed:
  assumes "buildContent p c = Inl e" and "body p = [] \<or> \<not> isStreaming p"
  shows "\<exists>inp. e = InvalidETag inp"
  using assms
  by (auto simp: buildContent_def rbind_eq_Inl_iff dest: optETag_Inl split: if_splits)

lemma buildVariant_flushed:
  assumes "buildVariant p info = Inl e" and "body p = [] \<or> \<not> isStreaming p"
  shows "e \<noteq> BodyNotEmpty"
  using assms
  by (cases info)
    (auto simp: buildVariant_def rbind_eq_Inl_iff dest: optETag_Inl buildContent_flushed
      split: option.splits)

lemma build_flushed:
  assumes "body p = [] \<or> \<not> isStreaming p"
  shows "build codes p \<noteq> Inl BodyNotEmpty"
proof
  assume b: "build codes p = Inl BodyNotEmpty"
  then have "\<exists>info. buildVariant p info = Inl BodyNotEmpty"
    by (auto simp: build_def rbind_eq_Inl_iff statusInfoFor_def split: if_splits option.splits)
  with buildVariant_flushed [OF _ assms] show False by blast
qed

lemma body_flushBody [simp]: "body (flushBody p) = []"
  by (simp add: flushBody_def)

lemma received_Inr:
  "received lib l stream = Inr (p, rest) \<longleftrightarrow>
     readResponse lib (newHttpParser l) stream = Inr ([], p, rest)"
  by (auto simp: received_def rbind_eq_Inr_iff)

lemma received_facts:
  assumes "received lib l stream = Inr (p, rest)"
  shows "responseStream p = []" and "body p = bodyOf (readEvents lib (newHttpParser l) stream)"
  using readResponse_result [of lib "newHttpParser l" stream "[]" p rest] assms
  by (simp_all add: received_Inr)

lemma sendRequest_unread:
  "received lib l stream = Inl e \<Longrightarrow>
     sendRequest codes lib l stream =
       \<lparr>exchangeResult = Inl e, exchangeStream = [], exchangeLogged = None\<rparr>"
  by (simp add: sendRequest_def)

lemma sendRequest_buffered:
  assumes "received lib l stream = Inr (p, rest)" and "\<not> isStreaming p"
  shows "sendRequest codes lib l stream =
           \<lparr>exchangeResult = build codes p, exchangeStream = [], exchangeLogged = None\<rparr>"
  using assms received_facts(1) [OF assms(1)]
  by (cases "build codes p") (simp_all add: sendRequest_def pumpStream_def)

lemma sendRequest_streaming:
  assumes "received lib l stream = Inr (p, rest)" and "isStreaming p"
  shows "exchangeResult (sendRequest codes lib l stream) = build codes (flushBody p)"
    and "build codes (flushBody p) = Inr response \<Longrightarrow> holdsHandle response \<Longrightarrow>
           exchangeStream (sendRequest codes lib l stream)
             = responseStream (fst (pumpStreamInternal lib (flushBody p) rest))
           \<and> exchangeLogged (sendRequest codes lib l stream)
             = snd (pumpStreamInternal lib (flushBody p) rest)"
    and "build codes (flushBody p) = Inr response \<Longrightarrow> \<not> holdsHandle response \<Longrightarrow>
           exchangeStream (sendRequest codes lib l stream) = responseStream (flushBody p)
           \<and> exchangeLogged (sendRequest codes lib l stream) = None"
proof -
  show "exchangeResult (sendRequest codes lib l stream) = build codes (flushBody p)"
    using assms
    by (cases "build codes (flushBody p)") (simp_all add: sendRequest_def split_beta)
  show "exchangeStream (sendRequest codes lib l stream)
             = responseStream (fst (pumpStreamInternal lib (flushBody p) rest))
           \<and> exchangeLogged (sendRequest codes lib l stream)
             = snd (pumpStreamInternal lib (flushBody p) rest)"
    if "build codes (flushBody p) = Inr response" "holdsHandle response"
    using assms that by (simp add: sendRequest_def pumpStream_def split_beta Let_def)
  show "exchangeStream (sendRequest codes lib l stream) = responseStream (flushBody p)
           \<and> exchangeLogged (sendRequest codes lib l stream) = None"
    if "build codes (flushBody p) = Inr response" "\<not> holdsHandle response"
    using assms that by (simp add: sendRequest_def)
qed

text \<open>
  A streamed response that is not a content response: the pump is cancelled,
  so the response stream has been sent the bytes read with the head, if any,
  and is never told that the body is complete.
\<close>

lemma sendRequest_cancelled:
  assumes "received lib l stream = Inr (p, rest)" and "isStreaming p"
    and "build codes (flushBody p) = Inr response" and "\<not> holdsHandle response"
  shows "sendRequest codes lib l stream =
           \<lparr>exchangeResult = Inr response,
            exchangeStream = (if body p = [] then [] else [WriteCall (body p)]),
            exchangeLogged = None\<rparr>"
  using assms received_facts(1) [OF assms(1)]
  by (simp add: sendRequest_def flushBody_def)

lemma sendRequest_result:
  "exchangeResult (sendRequest codes lib l stream) =
     rbind (received lib l stream) (\<lambda>(p, rest). build codes (if isStreaming p then flushBody p else p))"
proof (cases "received lib l stream")
  case (Inl e)
  then show ?thesis by (simp add: sendRequest_unread)
next
  case (Inr x)
  then obtain p rest where r: "received lib l stream = Inr (p, rest)" by (cases x) auto
  with sendRequest_buffered [OF r] sendRequest_streaming(1) [OF r] show ?thesis
    by (cases "isStreaming p") simp_all
qed

lemma getResponse_twice:
  "getResponseCalled rs \<Longrightarrow>
     getResponse codes lib l rs stream =
       (rs, \<lparr>exchangeResult = Inl GetResponseTwice, exchangeStream = [], exchangeLogged = None\<rparr>)"
  by (simp add: getResponse_def)

lemma getResponse_first:
  "\<not> getResponseCalled rs \<Longrightarrow>
     getResponse codes lib l rs stream = (rs\<lparr>getResponseCalled := True\<rparr>, sendRequest codes lib l stream)"
  by (simp add: getResponse_def)

lemma openWebSocket_Inr:
  "openWebSocket lib l stream = Inr (protocols, w) \<longleftrightarrow>
     (\<exists>r p rest. readResponse lib (newHttpParser l) stream = Inr (r, p, rest)
        \<and> buildForWebSocket p = Inr protocols
        \<and> w = pump (if r \<noteq> [] then sendData newWebSocketPump r else newWebSocketPump) rest)"
  by (auto simp: openWebSocket_def rbind_eq_Inr_iff)

lemma buildContent_body:
  assumes "build codes p = Inr response" and "responseVariant response = ContentResponse c"
  shows "contentBody c = (if isStreaming p then Stream else Bytes (body p))"
proof -
  from build_Inr [OF assms(1)] obtain info where
    "buildVariant p info = Inr (responseVariant response)" by auto
  from buildVariant_body [OF this] assms(2) show ?thesis by simp
qed

lemma streamed_flush:
  assumes "pumpStreamInternal lib (flushBody p) rest = (p', None)" and "isStreaming p"
    and "responseStream p = []" and "body p = b"
  shows "(\<exists>ws. list_all isWrite ws \<and> responseStream p' = ws @ [DoneCall])
       \<and> sentData (responseStream p') = b @ bodyOf (pumpEvents lib (flushBody p) rest)"
proof -
  from pumpStreamInternal_done [OF assms(1)] assms(2,3,4)
  have s: "responseStream p' =
      ((if b \<noteq> [] then [WriteCall b] else []) @ writesOf (pumpEvents lib (flushBody p) rest))
        @ [DoneCall]"
    by simp
  have "list_all isWrite ((if b \<noteq> [] then [WriteCall b] else [])
      @ writesOf (pumpEvents lib (flushBody p) rest))"
    by simp
  with s have "\<exists>ws. list_all isWrite ws \<and> responseStream p' = ws @ [DoneCall]" by blast
  with s show ?thesis by simp
qed

lemma makeHeaders_anonymous:
  "makeHeaders en anonymous m path plainContext extra =
     Inr (anonymousHead (m @ '' '' @ path @ '' HTTP/1.1'') (filter (\<lambda>h. h \<noteq> []) extra))"
  by (simp add: makeHeaders_def addCommonHeaders_def hostLines_def userLines_def contextLines_def
      preconditionLines_def anonymous_def plainContext_def anonymousHead_def)

section \<open>Properties\<close>

text \<open>
  C6.  The request of a verb.  Whenever a request is produced for one of the
  fourteen plain verbs, it is a head followed by exactly the body of the call
  (nothing for the verbs without one); the head starts with the request line
  \<^verbatim>\<open>METHOD rootPath+path HTTP/1.1\<close> and \<^verbatim>\<open>Connection: close\<close>, ends with an empty
  line, carries \<^verbatim>\<open>Content-Length\<close> with the exact length of the body when the
  verb has one, and for \<^verbatim>\<open>COPY\<close> and \<^verbatim>\<open>MOVE\<close> a \<^verbatim>\<open>Destination\<close> made of the
  base path and a destination that passed the check.
\<close>

theorem requestOf_shape:
  assumes "requestOf en s c ctx = Inr r"
  shows "\<exists>h. r = h @ (case callBody c of Some b \<Rightarrow> b | None \<Rightarrow> [])
           \<and> startsWith h (requestLine s (callMethod c) (callPath c) @ CRLF @ ''Connection: close'' @ CRLF)
           \<and> terminated h
           \<and> (\<forall>b. callBody c = Some b \<longrightarrow> hasLine h (''Content-Length: '' @ strNat (length b)))
           \<and> (\<forall>d. callDestination c = Some d \<longrightarrow>
                 validDestination d \<and> hasLine h (''Destination: '' @ basePath s @ d))"
proof -
  from assms have v: "case callDestination c of Some d \<Rightarrow> validDestination d | None \<Rightarrow> True"
    and w: "withBody en s (callMethod c) (callPath c) ctx (callHeaders s c)
              (case callBody c of Some b \<Rightarrow> b | None \<Rightarrow> []) = Inr r"
    unfolding requestOf_eq by (simp_all split: if_splits)
  from withBody_shape [OF w] obtain h where
    h: "r = h @ (case callBody c of Some b \<Rightarrow> b | None \<Rightarrow> [])"
      "startsWith h (requestLine s (callMethod c) (callPath c) @ CRLF @ ''Connection: close'' @ CRLF)"
      "terminated h"
    and l: "\<And>x. x \<in> set (callHeaders s c) \<Longrightarrow> x \<noteq> [] \<Longrightarrow> hasLine h x"
    by blast
  have "hasLine h (''Content-Length: '' @ strNat (length b))" if "callBody c = Some b" for b
    using l [OF callHeaders_length [OF that]] by simp
  moreover have "validDestination d \<and> hasLine h (''Destination: '' @ basePath s @ d)"
    if "callDestination c = Some d" for d
    using l [OF callHeaders_destination [OF that]] v that by simp
  ultimately show ?thesis using h by blast
qed

theorem requestOf_shape_witness:
  "requestOf [] anonymous notePost plainContext =
     Inr (anonymousHead ''POST /note HTTP/1.1'' [''Content-Type: text/plain'', ''Content-Length: 1'']
          @ ''x'')
   \<and> (\<exists>h. anonymousHead ''POST /note HTTP/1.1'' [''Content-Type: text/plain'', ''Content-Length: 1'']
             @ ''x'' = h @ ''x''
          \<and> terminated h \<and> hasLine h ''Content-Length: 1'')"
proof -
  have r: "requestOf [] anonymous notePost plainContext =
     Inr (anonymousHead ''POST /note HTTP/1.1'' [''Content-Type: text/plain'', ''Content-Length: 1'']
          @ ''x'')"
    by (simp add: notePost_def withBody_def makeHeaders_anonymous contentHeaders_def toBytes_def)
  from requestOf_shape [OF r] show ?thesis
    unfolding r by (simp add: notePost_def)
qed

text \<open>
  C22.  When a verb is refused.  A request is produced exactly when the base
  path of the session is empty or has the form of a URL, and, for \<^verbatim>\<open>COPY\<close>
  and \<^verbatim>\<open>MOVE\<close>, every byte of the destination lies between 33 and 127 and is
  not a comma.  The comparison is made on the signed \<^verbatim>\<open>char\<close>, so besides
  spaces and control characters every byte of a non-ASCII character is
  refused, while the delete character (127) is let through.
\<close>

theorem requestOf_succeeds_iff:
  "(isOk (requestOf en s c ctx) \<longleftrightarrow>
      (basePath s = [] \<or> urlLike (basePath s))
      \<and> (case callDestination c of Some d \<Rightarrow> validDestination d | None \<Rightarrow> True))
   \<and> (requestOf en s c ctx = Inl e \<longrightarrow>
        e = BadBaseUrl (basePath s)
        \<or> (\<exists>d. callDestination c = Some d \<and> \<not> validDestination d \<and> e = InvalidDestination d))"
proof -
  have "e = BadBaseUrl (basePath s)" if "withBody en s m path ctx extra content = Inl e"
    for m path extra content
    using that by (auto simp: withBody_def rbind_eq_Inl_iff dest: makeHeaders_Inl)
  then show ?thesis
    unfolding requestOf_ok_iff unfolding requestOf_eq
    by (auto split: option.splits if_splits)
qed

theorem requestOf_succeeds_iff_witness:
  "isOk (requestOf [] anonymous (Move ''/a'' [CHR ''/'', CHR 0x7F] False) plainContext)
   \<and> requestOf [] anonymous (Move ''/a'' ''/b c'' False) plainContext = Inl (InvalidDestination ''/b c'')
   \<and> \<not> isOk (requestOf [] anonymous (Move ''/a'' [CHR ''/'', CHR 0xC3, CHR 0xA9] False) plainContext)
   \<and> \<not> isOk (requestOf [] (anonymous\<lparr>basePath := ''example.com''\<rparr>) (Get ''/'' False) plainContext)"
proof -
  have b: "basePath anonymous = []" "\<not> urlLike ''example.com''"
    by (simp_all add: anonymous_def urlLike_def startsWith_def char_eval)
  have v: "validDestination [CHR ''/'', CHR 0x7F]" "\<not> validDestination ''/b c''"
    "\<not> validDestination [CHR ''/'', CHR 0xC3, CHR 0xA9]"
    by (simp_all add: validDestination_def char_eval)
  from requestOf_succeeds_iff [of "[]" anonymous "Move ''/a'' [CHR ''/'', CHR 0x7F] False" plainContext]
    requestOf_succeeds_iff [of "[]" anonymous "Move ''/a'' ''/b c'' False" plainContext
      "InvalidDestination ''/b c''"]
    requestOf_succeeds_iff [of "[]" anonymous "Move ''/a'' [CHR ''/'', CHR 0xC3, CHR 0xA9] False" plainContext]
    requestOf_succeeds_iff [of "[]" "anonymous\<lparr>basePath := ''example.com''\<rparr>" "Get ''/'' False" plainContext]
    b v
  show ?thesis
    by (simp add: makeDestinationHeader_eq)
qed

text \<open>
  C19.  A streaming upload always gets its head out.  The request stream made
  by \<^verbatim>\<open>postStreaming\<close> or \<^verbatim>\<open>putStreaming\<close> holds a head that ends with an
  empty line, so whatever calls the host makes on it, in whatever order, none
  fails for want of that line; and a chunked upload through it puts on the
  wire the head with \<^verbatim>\<open>Transfer-Encoding: chunked\<close> spliced in, one chunk per
  write and the last chunk.
\<close>

theorem streaming_request_safe:
  assumes "streamingRequest en s m path mime enc ctx = Inr rs"
  shows "Some MissingTerminator \<notin> set (snd (calls cs rs))
       \<and> (\<exists>h. rs = newRequestStream h \<and> terminated h \<and> hasLine h (''Content-Type: '' @ mime)
             \<and> (ds \<noteq> [] \<longrightarrow>
                  wire (fst (calls (map Write ds @ [Done]) rs))
                    = chunkedHeader h @ concat (map chunk ds) @ lastChunk))"
proof -
  from assms obtain h where
    h: "makeHeaders en s m path ctx
          [''Content-Type: '' @ mime,
           (case enc of Some e \<Rightarrow> ''Content-Encoding: '' @ e | None \<Rightarrow> [])] = Inr h"
    and rs: "rs = newRequestStream h"
    by (auto simp: streamingRequest_def rbind_eq_Inr_iff)
  note t = makeHeaders_terminated [OF h]
  have "hasLine h (''Content-Type: '' @ mime)"
    by (rule makeHeaders_hasLine(3) [OF h]) simp_all
  moreover have "wire (fst (calls (map Write ds @ [Done]) rs))
      = chunkedHeader h @ concat (map chunk ds) @ lastChunk" if "ds \<noteq> []"
    unfolding rs chunked_upload [OF t that] by (simp add: wire_def)
  moreover from calls_headOk [of rs cs] t rs
  have "Some MissingTerminator \<notin> set (snd (calls cs rs))" by simp
  ultimately show ?thesis using rs t by blast
qed

theorem streaming_request_safe_witness:
  "streamingRequest [] anonymous ''PUT'' ''/f'' ''text/plain'' None plainContext =
     Inr (newRequestStream (anonymousHead ''PUT /f HTTP/1.1'' [''Content-Type: text/plain'']))
   \<and> snd (calls [Write ''ab'', Done]
            (newRequestStream (anonymousHead ''PUT /f HTTP/1.1'' [''Content-Type: text/plain''])))
       = [None, None]
   \<and> Some MissingTerminator \<notin> set (snd (calls [Done, Write ''ab'', ExpectSize 1, Done]
            (newRequestStream (anonymousHead ''PUT /f HTTP/1.1'' [''Content-Type: text/plain'']))))"
proof -
  let ?rs = "newRequestStream (anonymousHead ''PUT /f HTTP/1.1'' [''Content-Type: text/plain''])"
  have r: "streamingRequest [] anonymous ''PUT'' ''/f'' ''text/plain'' None plainContext = Inr ?rs"
    by (simp add: streamingRequest_def makeHeaders_anonymous)
  from streaming_request_safe [OF r, of "[Write ''ab'', Done]"]
  have "terminated (anonymousHead ''PUT /f HTTP/1.1'' [''Content-Type: text/plain''])"
    by (auto simp: newRequestStream_def)
  from chunked_upload [OF this, of "[''ab'']"]
  have "snd (calls [Write ''ab'', Done] ?rs) = [None, None]"
    by (simp add: numeral_2_eq_2)
  with r streaming_request_safe [OF r, of "[Done, Write ''ab'', ExpectSize 1, Done]"]
  show ?thesis by simp
qed

text \<open>
  C14.  What the host gets from \<^verbatim>\<open>sendRequest\<close>.  The call never fails because
  body bytes were left in the parser when the result is built.  When it
  returns a content response with the body inline, the body is every body
  piece the library reported, in order, and nothing is written to the
  response stream.  When it returns a content response whose body is the
  stream, and the pump ends without error, the response stream receives only
  writes followed by one \<^verbatim>\<open>done\<close>, and the bytes written are the pieces
  reported while the head was read followed by those reported to the pump.
\<close>

theorem sendRequest_delivers_body:
  "exchangeResult (sendRequest codes lib l stream) \<noteq> Inl BodyNotEmpty
   \<and> (exchangeResult (sendRequest codes lib l stream) = Inr response
        \<and> responseVariant response = ContentResponse c \<longrightarrow>
        (case contentBody c of
           Bytes b \<Rightarrow>
             b = bodyOf (readEvents lib (newHttpParser l) stream)
             \<and> exchangeStream (sendRequest codes lib l stream) = []
         | Stream \<Rightarrow>
             (\<exists>p rest. readResponse lib (newHttpParser l) stream = Inr ([], p, rest)
                \<and> (exchangeLogged (sendRequest codes lib l stream) = None \<longrightarrow>
                     (\<exists>ws. list_all isWrite ws
                        \<and> exchangeStream (sendRequest codes lib l stream) = ws @ [DoneCall])
                     \<and> sentData (exchangeStream (sendRequest codes lib l stream))
                         = bodyOf (readEvents lib (newHttpParser l) stream)
                           @ bodyOf (pumpEvents lib (flushBody p) rest)))))"
proof (cases "received lib l stream")
  case (Inl e)
  then have "e \<noteq> BodyNotEmpty"
    by (auto simp: received_def rbind_eq_Inl_iff dest: readResponse_readError split: if_splits)
  with Inl show ?thesis by (simp add: sendRequest_unread)
next
  case (Inr x)
  then obtain p rest where r: "received lib l stream = Inr (p, rest)" by (cases x) auto
  note f = received_facts [OF r]
  show ?thesis
  proof (cases "isStreaming p")
    case False
    with build_flushed [of p codes] buildContent_body [of codes p] f show ?thesis
      unfolding sendRequest_buffered [OF r False] by (auto split: Body.splits)
  next
    case True
    note s = sendRequest_streaming [OF r True, of codes]
    have 1: "exchangeResult (sendRequest codes lib l stream) \<noteq> Inl BodyNotEmpty"
      unfolding s(1) by (rule build_flushed) simp
    from buildContent_body [of codes "flushBody p"] True
    have 3: "contentBody c = Stream"
      if "exchangeResult (sendRequest codes lib l stream) = Inr response"
        and "responseVariant response = ContentResponse c"
      using that unfolding s(1) by simp
    have 2: "(\<exists>ws. list_all isWrite ws \<and> exchangeStream (sendRequest codes lib l stream) = ws @ [DoneCall])
        \<and> sentData (exchangeStream (sendRequest codes lib l stream))
             = bodyOf (readEvents lib (newHttpParser l) stream) @ bodyOf (pumpEvents lib (flushBody p) rest)"
      if ok: "build codes (flushBody p) = Inr response"
        and v: "responseVariant response = ContentResponse c"
        and n: "exchangeLogged (sendRequest codes lib l stream) = None"
    proof -
      from 3 [OF _ v] ok v have "holdsHandle response"
        unfolding s(1) by (simp add: holdsHandle_def)
      from streamed_flush [OF _ True f, of lib rest] s(2) [OF ok this] n show ?thesis
        by (cases "pumpStreamInternal lib (flushBody p) rest") simp
    qed
    from 1 2 3 r show ?thesis
      unfolding s(1) by (auto simp: received_Inr)
  qed
qed

theorem sendRequest_delivers_body_witness:
  "\<exists>c. sendRequest okCodes scriptedLib [helloEvents, [OnBody ''lo'', OnMessageComplete]]
          [''HTTP/1.1 200 OK...'', ''lo'']
        = \<lparr>exchangeResult = Inr \<lparr>setCookies = [], responseVariant = ContentResponse c\<rparr>,
           exchangeStream = [WriteCall ''hel'', WriteCall ''lo'', DoneCall], exchangeLogged = None\<rparr>
      \<and> contentBody c = Stream \<and> contentMimeType c = ''text/plain''
      \<and> sentData [WriteCall ''hel'', WriteCall ''lo'', DoneCall] = ''hello''"
proof -
  let ?l = "[helloEvents, [OnBody ''lo'', OnMessageComplete]]"
  let ?p1 = "(fst (runEvents helloEvents (newHttpParser [[OnBody ''lo'', OnMessageComplete]])))
               \<lparr>isStreaming := True\<rparr>"
  let ?c = "\<lparr>contentStatusCode = 0, contentEncoding = [], contentLanguage = [],
             contentMimeType = ''text/plain'', contentETag = None, contentDisposition = Normal,
             contentBody = Stream\<rparr>"
  have r: "received scriptedLib ?l [''HTTP/1.1 200 OK...'', ''lo''] = Inr (?p1, [''lo''])"
    by (simp add: received_def readResponseStep_def http_parser_execute_def scriptedLib_def
        runEvents_helloEvents)
  have b: "build okCodes (flushBody ?p1) = Inr \<lparr>setCookies = [], responseVariant = ContentResponse ?c\<rparr>"
    by (simp add: runEvents_helloEvents flushBody_def build_def okCodes_def statusInfoFor_def
        buildVariant_def buildContent_def optETag_def findHeader_def)
  obtain p2 where p: "pumpStream scriptedLib ?p1 [''lo''] = (p2, None)"
    and c: "responseStream p2 = [WriteCall ''hel'', WriteCall ''lo'', DoneCall]"
    by (simp add: runEvents_helloEvents pumpStream_def flushBody_def pumpStep_def
        http_parser_execute_def scriptedLib_def onBody_def onMessageComplete_def)
  have x: "sendRequest okCodes scriptedLib ?l [''HTTP/1.1 200 OK...'', ''lo'']
        = \<lparr>exchangeResult = Inr \<lparr>setCookies = [], responseVariant = ContentResponse ?c\<rparr>,
           exchangeStream = [WriteCall ''hel'', WriteCall ''lo'', DoneCall], exchangeLogged = None\<rparr>"
    by (simp add: sendRequest_def holdsHandle_def r b p c)
  from sendRequest_delivers_body [of okCodes scriptedLib ?l "[''HTTP/1.1 200 OK...'', ''lo'']"
      "\<lparr>setCookies = [], responseVariant = ContentResponse ?c\<rparr>" ?c]
  have "sentData [WriteCall ''hel'', WriteCall ''lo'', DoneCall] = ''hello''"
    unfolding x by simp
  with x show ?thesis by simp
qed

text \<open>
  C23.  Opening a WebSocket.  The call succeeds only when the application
  answered 101; the accepted protocols are the trimmed, comma-separated
  entries of \<^verbatim>\<open>Sec-WebSocket-Protocol\<close>; the bytes that followed the response
  head in the same read are sent to the host first, then every later read up
  to the end of the stream, and nothing is written to the application by the
  call itself.  It fails only with an error of reading the response or with
  the status that was not 101.
\<close>

theorem openWebSocket_outcome:
  "(openWebSocket lib l stream = Inr (protocols, w) \<longrightarrow>
      (\<exists>r p rest. readResponse lib (newHttpParser l) stream = Inr (r, p, rest)
         \<and> status_code p = 101
         \<and> protocols = (case findHeader p ''sec-websocket-protocol'' of
                          None \<Rightarrow> [] | Some v \<Rightarrow> map trim (split v (CHR '','')))
         \<and> clientSends w = (if r = [] then [] else [r]) @ untilEof rest
         \<and> serverWrites w = [] \<and> \<not> clientStreamHeld w))
   \<and> (openWebSocket lib l stream = Inl e \<longrightarrow>
        readError e \<or> (\<exists>n. n \<noteq> 101 \<and> e = NoWebSocket n))"
proof -
  have "readError e \<or> (\<exists>n. n \<noteq> 101 \<and> e = NoWebSocket n)" if "openWebSocket lib l stream = Inl e"
    using that
    by (auto simp: openWebSocket_def rbind_eq_Inl_iff buildForWebSocket_def
        dest: readResponse_readError split: if_splits)
  moreover have "\<exists>r p rest. readResponse lib (newHttpParser l) stream = Inr (r, p, rest)
         \<and> status_code p = 101
         \<and> protocols = (case findHeader p ''sec-websocket-protocol'' of
                          None \<Rightarrow> [] | Some v \<Rightarrow> map trim (split v (CHR '','')))
         \<and> clientSends w = (if r = [] then [] else [r]) @ untilEof rest
         \<and> serverWrites w = [] \<and> \<not> clientStreamHeld w"
    if "openWebSocket lib l stream = Inr (protocols, w)"
  proof -
    from that obtain r p rest where
      r: "readResponse lib (newHttpParser l) stream = Inr (r, p, rest)"
      and b: "buildForWebSocket p = Inr protocols"
      and w: "w = pump (if r \<noteq> [] then sendData newWebSocketPump r else newWebSocketPump) rest"
      unfolding openWebSocket_Inr by blast
    from b have "status_code p = 101"
      "protocols = (case findHeader p ''sec-websocket-protocol'' of
                          None \<Rightarrow> [] | Some v \<Rightarrow> map trim (split v (CHR '','')))"
      by (auto simp: buildForWebSocket_def split: if_splits)
    moreover from w have "clientSends w = (if r = [] then [] else [r]) @ untilEof rest"
      "serverWrites w = []" "\<not> clientStreamHeld w"
      by (simp_all add: pump_sends sendData_def newWebSocketPump_def)
    ultimately show ?thesis using r by blast
  qed
  ultimately show ?thesis by blast
qed

theorem openWebSocket_outcome_witness:
  "\<exists>w. openWebSocket upgradeLib 4 [''HEADfr1'', ''fr2'', [], ''late''] = Inr ([''chat'', ''superchat''], w)
     \<and> clientSends w = [''fr1'', ''fr2'']
   \<and> openWebSocket scriptedLib [helloEvents] [''HTTP/1.1 200 OK...'', []] = Inl (NoWebSocket 200)"
proof -
  obtain q where e: "runEvents upgradeEvents (newHttpParser (0::nat)) = (q, None)"
    and q: "upgrade q" "status_code q = 101"
      "findHeader q ''sec-websocket-protocol'' = Some ''chat, superchat''"
    by (simp add: upgradeEvents_def parser_eval)
  then have r: "readResponse upgradeLib (newHttpParser 4) [''HEADfr1'', ''fr2'', [], ''late'']
      = Inr (''fr1'', q, [''fr2'', [], ''late''])"
    by (simp add: readResponseStep_def http_parser_execute_def upgradeLib_def)
  have t: "map trim (split ''chat, superchat'' (CHR '','')) = [''chat'', ''superchat'']"
    by (simp add: split_def trim_def trimArray_def char_eval)
  from q r t obtain w where
    w: "openWebSocket upgradeLib 4 [''HEADfr1'', ''fr2'', [], ''late''] = Inr ([''chat'', ''superchat''], w)"
    by (simp add: openWebSocket_def buildForWebSocket_def)
  have n: "openWebSocket scriptedLib [helloEvents] [''HTTP/1.1 200 OK...'', []] = Inl (NoWebSocket 200)"
    by (simp add: openWebSocket_def buildForWebSocket_def readResponseStep_def
        http_parser_execute_def scriptedLib_def runEvents_helloEvents)
  from openWebSocket_outcome [of upgradeLib 4 "[''HEADfr1'', ''fr2'', [], ''late'']"
      "[''chat'', ''superchat'']" w] w r
  have "clientSends w = [''fr1'', ''fr2'']"
    by (simp add: untilEof_def)
  with w n show ?thesis by blast
qed

text \<open>
  The identity of the user of a session.  A session is created unless
  an identity is given that is not 32 bytes long.  Its user id is then the
  32 hexadecimal digits of the first 16 bytes of the identity (they decode
  back to those bytes), there is no user id without an identity, and the
  display name is stored percent-encoded, so that no byte of it can end the
  header line it is sent in.
\<close>

theorem newWebSession_user_id:
  "(isOk (newWebSession u sid tid bp ua al rp perms ra) \<longleftrightarrow>
      (case identityId u of None \<Rightarrow> True | Some ident \<Rightarrow> length ident = 32))
   \<and> (newWebSession u sid tid bp ua al rp perms ra = Inr s \<longrightarrow>
        userDisplayName s = percentEncode (displayName u)
        \<and> list_all headerSafe (userDisplayName s)
        \<and> (case identityId u of
             None \<Rightarrow> userId s = None
           | Some ident \<Rightarrow>
               (\<exists>x. userId s = Some x \<and> length x = 32 \<and> list_all isHexDigit x
                  \<and> hexDecode x = Some (take 16 ident))))"
  using headerSafe_percentEncode [of "displayName u"]
  by (auto simp: newWebSession_def Let_def isHexDigit_hexEncode hexDecode_hexEncode
      split: option.splits if_splits)

theorem newWebSession_user_id_witness:
  "(\<exists>s. newWebSession \<lparr>displayName = ''Ann Lee'', preferredHandle = ''ann'', pictureUrl = [],
             pronouns = 0, identityId = Some (replicate 32 (CHR 0xAB))\<rparr>
           ''s1'' ''t1'' [] [] [] [] ''read'' None = Inr s
        \<and> userDisplayName s = ''Ann%20Lee'' \<and> userId s = Some (hexEncode (replicate 16 (CHR 0xAB))))
   \<and> newWebSession \<lparr>displayName = ''Ann Lee'', preferredHandle = ''ann'', pictureUrl = [],
             pronouns = 0, identityId = Some (replicate 20 (CHR 0xAB))\<rparr>
           ''s1'' ''t1'' [] [] [] [] ''read'' None = Inl BadIdentityId"
proof -
  let ?u = "\<lambda>n. \<lparr>displayName = ''Ann Lee'', preferredHandle = ''ann'', pictureUrl = [],
             pronouns = 0, identityId = Some (replicate n (CHR 0xAB))\<rparr>"
  from newWebSession_user_id [of "?u 20" "''s1''" "''t1''" "[]" "[]" "[]" "[]" "''read''" None]
  have "newWebSession (?u 20) ''s1'' ''t1'' [] [] [] [] ''read'' None = Inl BadIdentityId"
    by (simp add: newWebSession_def)
  moreover have "percentEncode ''Ann Lee'' = ''Ann%20Lee''"
    by (simp add: percentEncodeChar_def isUnreserved_def hexDigit_def HEX_DIGITS_def char_eval)
  then have "\<exists>s. newWebSession (?u 32) ''s1'' ''t1'' [] [] [] [] ''read'' None = Inr s
        \<and> userDisplayName s = ''Ann%20Lee'' \<and> userId s = Some (hexEncode (replicate 16 (CHR 0xAB)))"
    by (simp add: newWebSession_def)
  ultimately show ?thesis by blast
qed

end
