(* ===== verification/Session_Map.thy ===== *)
theory Session_Map
  imports Web_Session
begin

text \<open>
  The session factory \<^verbatim>\<open>UiViewImpl\<close> (lines 1575-1695), the map
  \<^verbatim>\<open>SessionContextMap\<close> (line 896) that every web session enters itself in
  when it is constructed and leaves when it is destroyed (lines 931 and 935),
  and \<^verbatim>\<open>SandstormHttpBridgeImpl::getSessionContext\<close> (lines 1562-1568), by which
  the application looks up the context of the session whose identifier it was
  given in \<^verbatim>\<open>X-Sandstorm-Session-Id\<close>.

  The state is the configuration, the session counter (an \<^verbatim>\<open>unsigned int\<close>, a
  32-bit word), the map and the web sessions that have been constructed and
  not yet destroyed, each with the context capability it holds.  The type of
  the capabilities is a parameter.  The map is a \<^verbatim>\<open>std::map\<close>; its \<^verbatim>\<open>insert\<close>
  leaves an existing entry as it is.  The text form of an IPv6 address is
  made by the C library and is a parameter of \<open>addressToString\<close>.
\<close>

section \<open>The map\<close>

type_synonym 'c SessionContextMap = "string \<rightharpoonup> 'c"

definition mapInsert :: "'c SessionContextMap \<Rightarrow> string \<Rightarrow> 'c \<Rightarrow> 'c SessionContextMap" where
  "mapInsert m k v = (case m k of None \<Rightarrow> m(k \<mapsto> v) | Some old \<Rightarrow> m)"

definition mapErase :: "'c SessionContextMap \<Rightarrow> string \<Rightarrow> 'c SessionContextMap" where
  "mapErase m k = m(k := None)"

section \<open>Web sessions and the map\<close>

definition constructWebSession ::
  "'c SessionContextMap \<Rightarrow> UserInfo \<Rightarrow> 'c \<Rightarrow> string \<Rightarrow> string \<Rightarrow> string \<Rightarrow> string \<Rightarrow> string
     \<Rightarrow> string \<Rightarrow> string \<Rightarrow> string option \<Rightarrow> ('c SessionContextMap \<times> WebSessionImpl) result" where
  "constructWebSession m userInfo sessionContext sessionId' tabId' basePath' userAgent'
       acceptLanguages' rootPath' permissions' remoteAddress' =
     rbind (newWebSession userInfo sessionId' tabId' basePath' userAgent' acceptLanguages'
              rootPath' permissions' remoteAddress')
       (\<lambda>s. Inr (mapInsert m (sessionId s) sessionContext, s))"

definition destroyWebSession :: "'c SessionContextMap \<Rightarrow> WebSessionImpl \<Rightarrow> 'c SessionContextMap" where
  "destroyWebSession m s = mapErase m (sessionId s)"

definition getSessionContext :: "'c SessionContextMap \<Rightarrow> string \<Rightarrow> 'c result" where
  "getSessionContext m ident =
     (case m ident of None \<Rightarrow> Inl (SessionNotFound ident) | Some ctx \<Rightarrow> Inr ctx)"

section \<open>The session factory\<close>

datatype SessionType = WebSessionType | HackEmailSessionType | ApiSessionType | OtherSessionType nat

record IpAddress =
  lower64 :: "64 word"
  upper64 :: "64 word"

record BridgeConfig =
  apiPath :: string
  viewPermissions :: "string list"

record 'c NewSessionParams =
  sessionType :: SessionType
  paramUserInfo :: UserInfo
  userPermissions :: "bool list"
  paramContext :: 'c
  paramTabId :: bytes
  webBasePath :: string
  webUserAgent :: string
  webAcceptableLanguages :: "string list"
  apiRemoteAddress :: "IpAddress option"

datatype Session = WebSessionOf WebSessionImpl | EmailSessionOf

record 'c UiViewImpl =
  config :: BridgeConfig
  sessionIdCounter :: "32 word"
  sessionContextMap :: "'c SessionContextMap"
  liveSessions :: "(WebSessionImpl \<times> 'c) list"

definition newUiView :: "BridgeConfig \<Rightarrow> 'c UiViewImpl" where
  "newUiView cfg =
     \<lparr>config = cfg, sessionIdCounter = 0, sessionContextMap = Map.empty, liveSessions = []\<rparr>"

definition formatPermissions :: "BridgeConfig \<Rightarrow> bool list \<Rightarrow> string" where
  "formatPermissions cfg userPerms =
     strArray (map fst (filter snd (zip (viewPermissions cfg) userPerms))) '',''"

definition byteAt :: "64 word \<Rightarrow> nat \<Rightarrow> nat" where
  "byteAt w n = unat (and (drop_bit n w) 0xff)"

definition inet_ntop4 :: "nat list \<Rightarrow> string" where
  "inet_ntop4 octets = strArray (map strNat octets) ''.''"

definition addressToString :: "(nat list \<Rightarrow> string) \<Rightarrow> IpAddress \<Rightarrow> string" where
  "addressToString inet_ntop6 address =
     (if upper64 address = 0 \<and> drop_bit 32 (lower64 address) = 0xffff
      then (let low = and (lower64 address) 0xffffffff in
            inet_ntop4 [byteAt low 24, byteAt low 16, byteAt low 8, byteAt low 0])
      else inet_ntop6
             ([byteAt (upper64 address) 56, byteAt (upper64 address) 48,
               byteAt (upper64 address) 40, byteAt (upper64 address) 32,
               byteAt (upper64 address) 24, byteAt (upper64 address) 16,
               byteAt (upper64 address) 8, byteAt (upper64 address) 0,
               byteAt (lower64 address) 56, byteAt (lower64 address) 48,
               byteAt (lower64 address) 40, byteAt (lower64 address) 32,
               byteAt (lower64 address) 24, byteAt (lower64 address) 16,
               byteAt (lower64 address) 8, byteAt (lower64 address) 0]))"

definition supported :: "BridgeConfig \<Rightarrow> SessionType \<Rightarrow> bool" where
  "supported cfg t =
     (t = WebSessionType \<or> t = HackEmailSessionType \<or> (apiPath cfg \<noteq> [] \<and> t = ApiSessionType))"

definition addSession ::
  "'c UiViewImpl \<Rightarrow> 'c \<Rightarrow> ('c SessionContextMap \<times> WebSessionImpl) result
     \<Rightarrow> 'c UiViewImpl \<times> Session result" where
  "addSession v ctx made =
     (let v1 = v\<lparr>sessionIdCounter := sessionIdCounter v + 1\<rparr> in
      case made of
        Inl err \<Rightarrow> (v1, Inl err)
      | Inr (m, s) \<Rightarrow>
          (v1\<lparr>sessionContextMap := m, liveSessions := liveSessions v1 @ [(s, ctx)]\<rparr>,
           Inr (WebSessionOf s)))"

definition newSession ::
  "(nat list \<Rightarrow> string) \<Rightarrow> 'c UiViewImpl \<Rightarrow> 'c NewSessionParams \<Rightarrow> 'c UiViewImpl \<times> Session result" where
  "newSession inet_ntop6 v params =
     (if \<not> supported (config v) (sessionType params) then (v, Inl UnsupportedSessionType)
      else if sessionType params = WebSessionType then
        addSession v (paramContext params)
          (constructWebSession (sessionContextMap v) (paramUserInfo params) (paramContext params)
             (strNat (unat (sessionIdCounter v))) (hexEncode (paramTabId params))
             (webBasePath params) (webUserAgent params)
             (strArray (webAcceptableLanguages params) '','') ''/''
             (formatPermissions (config v) (userPermissions params)) None)
      else if sessionType params = ApiSessionType then
        addSession v (paramContext params)
          (constructWebSession (sessionContextMap v) (paramUserInfo params) (paramContext params)
             (strNat (unat (sessionIdCounter v))) (hexEncode (paramTabId params))
             [] [] [] (apiPath (config v))
             (formatPermissions (config v) (userPermissions params))
             (map_option (addressToString inet_ntop6) (apiRemoteAddress params)))
      else (v, Inr EmailSessionOf))"

definition dropSession :: "'c UiViewImpl \<Rightarrow> nat \<Rightarrow> 'c UiViewImpl" where
  "dropSession v i =
     (if i < length (liveSessions v)
      then v\<lparr>sessionContextMap := destroyWebSession (sessionContextMap v) (fst (liveSessions v ! i)),
             liveSessions := take i (liveSessions v) @ drop (Suc i) (liveSessions v)\<rparr>
      else v)"

section \<open>Specification\<close>

text \<open>
  The calls that change the state, runs of them counted by the number of
  session identifiers they hand out, and what the map is meant to be: the
  sessions alive, each under its identifier.
\<close>

datatype 'c BridgeCall = NewSession "'c NewSessionParams" | DropSession nat

fun step :: "(nat list \<Rightarrow> string) \<Rightarrow> 'c BridgeCall \<Rightarrow> 'c UiViewImpl \<Rightarrow> 'c UiViewImpl" where
  "step f (NewSession ps) v = fst (newSession f v ps)"
| "step f (DropSession i) v = dropSession v i"

fun takesId :: "BridgeConfig \<Rightarrow> 'c BridgeCall \<Rightarrow> nat" where
  "takesId cfg (NewSession ps) =
     (if supported cfg (sessionType ps) \<and> sessionType ps \<noteq> HackEmailSessionType then 1 else 0)"
| "takesId cfg (DropSession i) = 0"

inductive reachableIn ::
  "(nat list \<Rightarrow> string) \<Rightarrow> BridgeConfig \<Rightarrow> nat \<Rightarrow> 'c UiViewImpl \<Rightarrow> bool" for f cfg where
  init: "reachableIn f cfg 0 (newUiView cfg)"
| after: "reachableIn f cfg n v \<Longrightarrow> reachableIn f cfg (n + takesId cfg c) (step f c v)"

definition ids :: "(WebSessionImpl \<times> 'c) list \<Rightarrow> string list" where
  "ids live = map (\<lambda>(s, c). sessionId s) live"

definition mapOf :: "(WebSessionImpl \<times> 'c) list \<Rightarrow> 'c SessionContextMap" where
  "mapOf live = map_of (map (\<lambda>(s, c). (sessionId s, c)) live)"

definition mapInv :: "BridgeConfig \<Rightarrow> nat \<Rightarrow> 'c UiViewImpl \<Rightarrow> bool" where
  "mapInv cfg n v \<longleftrightarrow>
     config v = cfg \<and> unat (sessionIdCounter v) = n
     \<and> list_all (\<lambda>i. \<exists>k < n. i = strNat k) (ids (liveSessions v))
     \<and> distinct (ids (liveSessions v))
     \<and> sessionContextMap v = mapOf (liveSessions v)"

definition webParams :: "'c \<Rightarrow> 'c NewSessionParams" where
  "webParams ctx =
     \<lparr>sessionType = WebSessionType,
      paramUserInfo = \<lparr>displayName = ''Ann'', preferredHandle = [], pictureUrl = [], pronouns = 0,
                       identityId = None\<rparr>,
      userPermissions = [True, False, True], paramContext = ctx, paramTabId = [CHR 0x01, CHR 0xAB],
      webBasePath = ''https://example.com'', webUserAgent = ''ua'',
      webAcceptableLanguages = [''en'', ''fr''], apiRemoteAddress = None\<rparr>"

definition annSession :: "BridgeConfig \<Rightarrow> string \<Rightarrow> WebSessionImpl" where
  "annSession cfg sid =
     \<lparr>sessionId = sid, tabId = hexEncode [CHR 0x01, CHR 0xAB], userDisplayName = percentEncode ''Ann'',
      userHandle = [], userPicture = [], userPronouns = 0, userId = None,
      permissions = formatPermissions cfg [True, False, True], basePath = ''https://example.com'',
      userAgent = ''ua'', acceptLanguages = ''en,fr'', rootPath = ''/'', remoteAddress = None\<rparr>"

definition oneSession :: "BridgeConfig \<Rightarrow> 'c \<Rightarrow> 32 word \<Rightarrow> 'c UiViewImpl" where
  "oneSession cfg ctx w =
     \<lparr>config = cfg, sessionIdCounter = w, sessionContextMap = [''0'' \<mapsto> ctx],
      liveSessions = [(annSession cfg ''0'', ctx)]\<rparr>"

definition churn :: "(nat list \<Rightarrow> string) \<Rightarrow> 'c \<Rightarrow> 'c UiViewImpl \<Rightarrow> 'c UiViewImpl" where
  "churn f ctx v = step f (DropSession 1) (step f (NewSession (webParams ctx)) v)"

text \<open>
  Stand-ins for the parameters in examples: a configuration without an API
  path, and a text form of sixteen bytes in place of the C library's.
\<close>

definition demoConfig :: BridgeConfig where
  "demoConfig = \<lparr>apiPath = [], viewPermissions = [''read'', ''write'', ''admin'']\<rparr>"

definition bytesText :: "nat list \<Rightarrow> string" where
  "bytesText bs = strArray (map strNat bs) '' ''"

section \<open>Lemmas on the map\<close>

lemma mapInsert_fresh [simp]: "m k = None \<Longrightarrow> mapInsert m k v = m(k \<mapsto> v)"
  by (simp add: mapInsert_def)

lemma mapInsert_present [simp]: "m k = Some old \<Longrightarrow> mapInsert m k v = m"
  by (simp add: mapInsert_def)

lemma ids_simps [simp]:
  "ids [] = []" "ids ((s, c) # live) = sessionId s # ids live" "ids (a @ b) = ids a @ ids b"
  by (simp_all add: ids_def)

lemma mapOf_simps [simp]:
  "mapOf [] = Map.empty" "mapOf ((s, c) # live) = (mapOf live)(sessionId s \<mapsto> c)"
  by (simp_all add: mapOf_def)

lemma mapOf_None_iff: "mapOf live k = None \<longleftrightarrow> k \<notin> set (ids live)"
  by (induction live) (auto split: if_splits)

lemma mapOf_snoc:
  "sessionId s \<notin> set (ids live) \<Longrightarrow> mapOf (live @ [(s, c)]) = (mapOf live)(sessionId s \<mapsto> c)"
  by (induction live) (auto simp: fun_upd_twist)

lemma mapOf_Some_iff:
  "distinct (ids live) \<Longrightarrow> mapOf live k = Some c \<longleftrightarrow> (\<exists>s. (s, c) \<in> set live \<and> sessionId s = k)"
proof (induction live)
  case Nil
  then show ?case by simp
next
  case (Cons a live)
  obtain s' c' where a: "a = (s', c')" by (cases a)
  with Cons mapOf_None_iff [of live "sessionId s'"] show ?case
    by (cases "k = sessionId s'") (auto simp: ids_def)
qed

lemma ids_nth [simp]: "i < length live \<Longrightarrow> ids live ! i = sessionId (fst (live ! i))"
  by (simp add: ids_def split_beta)

lemma length_ids [simp]: "length (ids live) = length live"
  by (simp add: ids_def)

lemma mapOf_remove:
  assumes "distinct (ids live)" and "i < length live"
  shows "mapOf (take i live @ drop (Suc i) live) = (mapOf live)(sessionId (fst (live ! i)) := None)"
  using assms
proof (induction live arbitrary: i)
  case Nil
  then show ?case by simp
next
  case (Cons a live)
  obtain s c where a: "a = (s, c)" by (cases a)
  show ?case
  proof (cases i)
    case 0
    with Cons.prems a mapOf_None_iff [of live "sessionId s"] show ?thesis by (auto simp: fun_eq_iff)
  next
    case (Suc j)
    with Cons.prems have "sessionId (fst (live ! j)) \<in> set (ids live)"
      using nth_mem [of j "ids live"] by simp
    with Cons.prems a have "sessionId (fst (live ! j)) \<noteq> sessionId s"
      by auto
    with Suc Cons.prems a Cons.IH [of j] show ?thesis by (auto simp: fun_eq_iff)
  qed
qed

section \<open>The invariant\<close>

lemma newWebSession_Inr:
  "newWebSession u sid tid bp ua al rp perms ra = Inr s \<Longrightarrow>
     sessionId s = sid \<and> tabId s = tid \<and> basePath s = bp \<and> rootPath s = rp
     \<and> permissions s = perms \<and> remoteAddress s = ra \<and> userAgent s = ua \<and> acceptLanguages s = al"
  by (auto simp: newWebSession_def Let_def split: option.splits if_splits)

lemma newWebSession_Inl:
  "newWebSession u sid tid bp ua al rp perms ra = Inl e \<Longrightarrow> e = BadIdentityId"
  by (auto simp: newWebSession_def Let_def split: option.splits if_splits)

lemma constructWebSession_cases:
  "(\<exists>s. constructWebSession m u ctx sid tid bp ua al rp perms ra = Inr (mapInsert m sid ctx, s)
        \<and> newWebSession u sid tid bp ua al rp perms ra = Inr s \<and> sessionId s = sid)
   \<or> (constructWebSession m u ctx sid tid bp ua al rp perms ra = Inl BadIdentityId
      \<and> newWebSession u sid tid bp ua al rp perms ra = Inl BadIdentityId)"
proof (cases "newWebSession u sid tid bp ua al rp perms ra")
  case (Inl e)
  with newWebSession_Inl [OF Inl] show ?thesis by (simp add: constructWebSession_def)
next
  case (Inr s)
  with newWebSession_Inr [OF Inr] show ?thesis by (simp add: constructWebSession_def)
qed

lemma counter_Suc:
  "unat c = n \<Longrightarrow> Suc n < 2 ^ 32 \<Longrightarrow> unat (c + 1 :: 32 word) = Suc n"
  using unat_add_lem [of c 1] by simp

lemma distinct_remove_nth: "distinct xs \<Longrightarrow> distinct (take i xs @ drop (Suc i) xs)"
  using set_take_disj_set_drop_if_distinct [of xs i "Suc i"] by simp

lemma ids_take_drop [simp]: "ids (take i live) = take i (ids live)" "ids (drop i live) = drop i (ids live)"
  by (simp_all add: ids_def take_map drop_map)

lemma list_all_remove_nth: "list_all P xs \<Longrightarrow> list_all P (take i xs @ drop (Suc i) xs)"
  by (auto simp: list_all_iff dest: in_set_takeD in_set_dropD)

lemma addSession_mapInv:
  assumes inv: "mapInv cfg n v" and n: "Suc n < 2 ^ 32"
    and made: "made = Inl e \<or> (\<exists>s. sessionId s = strNat n
                 \<and> made = Inr (mapInsert (sessionContextMap v) (strNat n) ctx, s))"
  shows "mapInv cfg (Suc n) (fst (addSession v ctx made))"
proof -
  from inv have c: "unat (sessionIdCounter v + 1) = Suc n"
    by (simp add: mapInv_def counter_Suc [OF _ n])
  from inv have old: "list_all (\<lambda>i. \<exists>k < Suc n. i = strNat k) (ids (liveSessions v))"
    by (auto simp: mapInv_def list_all_iff intro: less_SucI)
  from made show ?thesis
  proof
    assume "made = Inl e"
    with inv c old show ?thesis by (simp add: addSession_def mapInv_def)
  next
    assume "\<exists>s. sessionId s = strNat n
        \<and> made = Inr (mapInsert (sessionContextMap v) (strNat n) ctx, s)"
    then obtain s where s: "sessionId s = strNat n"
      and m: "made = Inr (mapInsert (sessionContextMap v) (strNat n) ctx, s)" by blast
    from inv have fresh: "strNat n \<notin> set (ids (liveSessions v))"
      by (auto simp: mapInv_def list_all_iff dest: strNat_inj)
    with inv have "sessionContextMap v (strNat n) = None"
      by (simp add: mapInv_def mapOf_None_iff)
    with inv fresh s mapOf_snoc [of s "liveSessions v" ctx]
    have "mapInsert (sessionContextMap v) (strNat n) ctx = mapOf (liveSessions v @ [(s, ctx)])"
      by (simp add: mapInv_def)
    moreover have "\<exists>k < Suc n. strNat n = strNat k" by blast
    ultimately show ?thesis
      using inv c old fresh s m by (simp add: addSession_def mapInv_def)
  qed
qed

lemma newSession_mapInv:
  assumes "mapInv cfg n v" and "n + takesId cfg (NewSession ps) < 2 ^ 32"
  shows "mapInv cfg (n + takesId cfg (NewSession ps)) (fst (newSession f v ps))"
proof -
  from assms(1) have cfg: "config v = cfg" and c: "unat (sessionIdCounter v) = n"
    by (simp_all add: mapInv_def)
  note cw = constructWebSession_cases [of "sessionContextMap v" "paramUserInfo ps" "paramContext ps"
      "strNat n"]
  show ?thesis
  proof (cases "takesId cfg (NewSession ps) = 0")
    case True
    with assms(1) cfg show ?thesis
      by (auto simp: newSession_def supported_def split: if_splits)
  next
    case False
    with assms(2) have n: "Suc n < 2 ^ 32" and t: "takesId cfg (NewSession ps) = 1"
      by (simp_all split: if_splits)
    from False cfg consider "sessionType ps = WebSessionType"
      | "sessionType ps = ApiSessionType" "supported cfg ApiSessionType"
      by (cases "sessionType ps") (auto simp: supported_def split: if_splits)
    then show ?thesis
    proof cases
      case 1
      with cfg c t show ?thesis
        using addSession_mapInv [OF assms(1) n, of _ BadIdentityId "paramContext ps"]
          cw [of "hexEncode (paramTabId ps)" "webBasePath ps" "webUserAgent ps"
            "strArray (webAcceptableLanguages ps) '',''" "''/''"
            "formatPermissions cfg (userPermissions ps)" None]
        by (auto simp: newSession_def supported_def)
    next
      case 2
      with cfg c t show ?thesis
        using addSession_mapInv [OF assms(1) n, of _ BadIdentityId "paramContext ps"]
          cw [of "hexEncode (paramTabId ps)" "[]" "[]" "[]" "apiPath cfg"
            "formatPermissions cfg (userPermissions ps)"
            "map_option (addressToString f) (apiRemoteAddress ps)"]
        by (auto simp: newSession_def)
    qed
  qed
qed

lemma dropSession_mapInv:
  assumes "mapInv cfg n v"
  shows "mapInv cfg n (dropSession v i)"
proof (cases "i < length (liveSessions v)")
  case True
  with assms mapOf_remove [of "liveSessions v" i]
    distinct_remove_nth [of "ids (liveSessions v)" i]
    list_all_remove_nth [of "\<lambda>i. \<exists>k < n. i = strNat k" "ids (liveSessions v)" i]
  show ?thesis
    by (simp add: dropSession_def mapInv_def destroyWebSession_def mapErase_def)
next
  case False
  with assms show ?thesis by (simp add: dropSession_def)
qed

lemma mapInv_new [simp]: "mapInv cfg 0 (newUiView cfg)"
  by (simp add: mapInv_def newUiView_def)

lemma reachableIn_mapInv:
  assumes "reachableIn f cfg n v" and "n < 2 ^ 32"
  shows "mapInv cfg n v"
  using assms
proof (induction rule: reachableIn.induct)
  case init
  show ?case by simp
next
  case (after n v c)
  then have inv: "mapInv cfg n v" by simp
  show ?case
  proof (cases c)
    case (NewSession ps)
    with newSession_mapInv [OF inv, of ps f] after.prems show ?thesis by simp
  next
    case (DropSession i)
    with dropSession_mapInv [OF inv, of i] show ?thesis by simp
  qed
qed

section \<open>Running out of identifiers\<close>

lemma newSession_webParams:
  "newSession f v (webParams ctx) =
     addSession v ctx
       (Inr (mapInsert (sessionContextMap v) (strNat (unat (sessionIdCounter v))) ctx,
             annSession (config v) (strNat (unat (sessionIdCounter v)))))"
  by (simp add: newSession_def supported_def webParams_def constructWebSession_def
      newWebSession_def annSession_def)

lemma webParams_type [simp]:
  "sessionType (webParams ctx) = WebSessionType" "supported cfg WebSessionType"
  by (simp_all add: webParams_def supported_def)

lemma first_session: "step f (NewSession (webParams ctx)) (newUiView cfg) = oneSession cfg ctx 1"
  by (simp add: newSession_webParams addSession_def newUiView_def oneSession_def)

lemma churn_oneSession:
  assumes "w \<noteq> 0"
  shows "churn f c (oneSession cfg ctx w) = oneSession cfg ctx (w + 1)"
proof -
  from assms have "unat w \<noteq> 0" by (simp add: unat_eq_zero)
  then show ?thesis
    by (simp add: churn_def newSession_webParams addSession_def oneSession_def dropSession_def
        destroyWebSession_def mapErase_def annSession_def fun_upd_twist)
qed

lemma churn_funpow:
  "k < 2 ^ 32 \<Longrightarrow> (churn f c ^^ k) (oneSession cfg ctx 1) = oneSession cfg ctx (1 + of_nat k)"
proof (induction k)
  case 0
  show ?case by simp
next
  case (Suc k)
  then have "unat (of_nat (Suc k) :: 32 word) = Suc k"
    using unat_of_nat_small [of "Suc k", where 'a = 32] by simp
  then have "(of_nat (Suc k) :: 32 word) \<noteq> 0"
    by (metis Zero_not_Suc unat_0)
  then have "(1 + of_nat k :: 32 word) \<noteq> 0" by (simp add: add.commute)
  from churn_oneSession [OF this, of f c cfg ctx] Suc show ?case
    by (simp add: add.assoc add.commute)
qed

lemma reachableIn_churn:
  "reachableIn f cfg n v \<Longrightarrow> reachableIn f cfg (n + k) ((churn f c ^^ k) v)"
proof (induction k)
  case 0
  then show ?case by simp
next
  case (Suc k)
  from reachableIn.after [OF reachableIn.after [OF Suc.IH [OF Suc.prems], of "NewSession (webParams c)"],
      of "DropSession 1"]
  show ?case by (simp add: churn_def supported_def webParams_def)
qed

lemma reachableIn_wrapped: "reachableIn f cfg (2 ^ 32) (oneSession cfg ctx 0)"
proof -
  have "reachableIn f cfg (0 + takesId cfg (NewSession (webParams ctx)))
          (step f (NewSession (webParams ctx)) (newUiView cfg))"
    by (rule reachableIn.after [OF reachableIn.init])
  moreover have "takesId cfg (NewSession (webParams ctx)) = 1"
    by (simp add: supported_def webParams_def)
  ultimately have "reachableIn f cfg 1 (oneSession cfg ctx 1)"
    by (simp add: first_session del: step.simps)
  from reachableIn_churn [OF this, of "2 ^ 32 - 1" ctx]
  have "reachableIn f cfg (2 ^ 32) ((churn f ctx ^^ (2 ^ 32 - 1)) (oneSession cfg ctx 1))" by simp
  moreover have z: "(4294967296 :: 32 word) = 0" by simp
  have "(churn f ctx ^^ (2 ^ 32 - 1)) (oneSession cfg ctx 1) = oneSession cfg ctx 4294967296"
    using churn_funpow [of "2 ^ 32 - 1" f ctx cfg ctx] by simp
  ultimately show ?thesis
    unfolding z by simp
qed

section \<open>Lemmas on the factory\<close>

lemma newSession_unsupported:
  "\<not> supported (config v) (sessionType ps) \<Longrightarrow> newSession f v ps = (v, Inl UnsupportedSessionType)"
  by (simp add: newSession_def)

lemma newSession_email:
  "sessionType ps = HackEmailSessionType \<Longrightarrow> newSession f v ps = (v, Inr EmailSessionOf)"
  by (simp add: newSession_def supported_def)

lemma addSession_counter [simp]:
  "sessionIdCounter (fst (addSession v ctx made)) = sessionIdCounter v + 1"
  by (cases made) (auto simp: addSession_def)

lemma addSession_Inl [simp]:
  "addSession v ctx (Inl e) = (v\<lparr>sessionIdCounter := sessionIdCounter v + 1\<rparr>, Inl e)"
  by (simp add: addSession_def)

lemma addSession_Inr:
  "snd (addSession v ctx made) = Inr x \<longleftrightarrow> (\<exists>m s. made = Inr (m, s) \<and> x = WebSessionOf s)"
  by (cases made) (auto simp: addSession_def)

lemma byteAt_less [simp]: "byteAt w n < 256"
proof -
  have "and (drop_bit n w) 0xff \<le> 0xff" by (rule word_and_le1)
  then show ?thesis by (simp add: byteAt_def word_le_nat_alt)
qed

section \<open>Properties\<close>

text \<open>
  C7.  The map holds exactly the live sessions.  In every state reached by
  creating and dropping sessions, as long as fewer than \<open>2 ^ 32\<close> identifiers
  have been handed out, the identifiers of the live sessions are distinct,
  and a look-up of an identifier succeeds exactly when a live session has it
  and returns the context of that session.
\<close>

theorem session_map_tracks_sessions:
  assumes "reachableIn f cfg n v" and "n < 2 ^ 32"
  shows "distinct (ids (liveSessions v))
       \<and> (getSessionContext (sessionContextMap v) k = Inr c \<longleftrightarrow>
            (\<exists>s. (s, c) \<in> set (liveSessions v) \<and> sessionId s = k))
       \<and> (getSessionContext (sessionContextMap v) k = Inl (SessionNotFound k) \<longleftrightarrow>
            k \<notin> set (ids (liveSessions v)))"
proof -
  from reachableIn_mapInv [OF assms] have d: "distinct (ids (liveSessions v))"
    and m: "sessionContextMap v = mapOf (liveSessions v)"
    by (simp_all add: mapInv_def)
  from mapOf_Some_iff [OF d, of k c] mapOf_None_iff [of "liveSessions v" k] d m show ?thesis
    by (auto simp: getSessionContext_def split: option.splits)
qed

theorem session_map_tracks_sessions_witness:
  "reachableIn bytesText demoConfig 2 (step bytesText (DropSession 0)
      (step bytesText (NewSession (webParams (2::nat))) (step bytesText (NewSession (webParams 1)) (newUiView demoConfig))))
   \<and> getSessionContext (sessionContextMap (step bytesText (DropSession 0)
        (step bytesText (NewSession (webParams (2::nat))) (step bytesText (NewSession (webParams 1)) (newUiView demoConfig)))))
        ''1'' = Inr 2
   \<and> getSessionContext (sessionContextMap (step bytesText (DropSession 0)
        (step bytesText (NewSession (webParams (2::nat))) (step bytesText (NewSession (webParams 1)) (newUiView demoConfig)))))
        ''0'' = Inl (SessionNotFound ''0'')"
proof -
  let ?v = "step bytesText (DropSession 0)
      (step bytesText (NewSession (webParams (2::nat))) (step bytesText (NewSession (webParams 1)) (newUiView demoConfig)))"
  from reachableIn.after [OF reachableIn.after [OF reachableIn.after [OF reachableIn.init,
          of bytesText demoConfig "NewSession (webParams (1::nat))"], of "NewSession (webParams (2::nat))"],
      of "DropSession 0"]
  have r: "reachableIn bytesText demoConfig 2 ?v"
    by (simp add: numeral_2_eq_2 del: step.simps)
  have l: "liveSessions ?v = [(annSession demoConfig ''1'', 2)]"
    by (simp add: newSession_webParams addSession_def newUiView_def dropSession_def)
  from session_map_tracks_sessions [OF r, of "''1''" 2]
    session_map_tracks_sessions [OF r, of "''0''"] l
  show ?thesis using r by (simp add: annSession_def)
qed

text \<open>
  C16.  The identifiers run out.  The counter is 32 bits wide and a session
  may live for as long as the host keeps it.  With the first session still
  alive, after \<open>2 ^ 32\<close> identifiers the counter is 0 again, and this state is
  reachable.  The next session then gets the identifier of the first; the
  map keeps the entry of the first session, so the application's look-up for
  the new session returns the context of the first; and when the new session
  is dropped the entry is removed although the first session is alive.
\<close>

theorem session_id_wraps:
  "reachableIn f cfg (2 ^ 32) (oneSession cfg c0 0)
   \<and> liveSessions (oneSession cfg c0 0) = [(annSession cfg ''0'', c0)]
   \<and> snd (newSession f (oneSession cfg c0 0) (webParams c1)) = Inr (WebSessionOf (annSession cfg ''0''))
   \<and> getSessionContext (sessionContextMap (fst (newSession f (oneSession cfg c0 0) (webParams c1)))) ''0''
       = Inr c0
   \<and> liveSessions (dropSession (fst (newSession f (oneSession cfg c0 0) (webParams c1))) 1)
       = [(annSession cfg ''0'', c0)]
   \<and> getSessionContext
         (sessionContextMap (dropSession (fst (newSession f (oneSession cfg c0 0) (webParams c1))) 1)) ''0''
       = Inl (SessionNotFound ''0'')"
  using reachableIn_wrapped [of f cfg c0]
  by (simp add: newSession_webParams addSession_def oneSession_def dropSession_def
      destroyWebSession_def mapErase_def getSessionContext_def annSession_def)

text \<open>
  C29.  What \<^verbatim>\<open>newSession\<close> makes.  A session type other than web, mail, or
  API with a configured API path is refused and nothing changes.  A mail
  session takes no identifier.  A web or API session takes the counter's
  value in decimal as its identifier and advances the counter, also when the
  session cannot be built because of its identity; a web session has root
  path \<^verbatim>\<open>/\<close> and no remote address, an API session has the configured API path
  as root path and an empty base path; the tab identifier is in hexadecimal
  and the permissions are the names of the configured permissions the user
  holds, in order, with commas.
\<close>

theorem newSession_outcome:
  "(\<not> supported (config v) (sessionType ps) \<longrightarrow> newSession f v ps = (v, Inl UnsupportedSessionType))
   \<and> (sessionType ps = HackEmailSessionType \<longrightarrow> newSession f v ps = (v, Inr EmailSessionOf))
   \<and> (supported (config v) (sessionType ps) \<and> sessionType ps \<noteq> HackEmailSessionType \<longrightarrow>
        sessionIdCounter (fst (newSession f v ps)) = sessionIdCounter v + 1
        \<and> (snd (newSession f v ps) = Inl BadIdentityId
            \<or> (\<exists>s. snd (newSession f v ps) = Inr (WebSessionOf s)
                 \<and> sessionId s = strNat (unat (sessionIdCounter v))
                 \<and> tabId s = hexEncode (paramTabId ps)
                 \<and> permissions s
                     = strArray (map fst (filter snd (zip (viewPermissions (config v)) (userPermissions ps)))) '',''
                 \<and> (if sessionType ps = WebSessionType
                     then rootPath s = ''/'' \<and> basePath s = webBasePath ps \<and> remoteAddress s = None
                     else rootPath s = apiPath (config v) \<and> basePath s = []
                          \<and> remoteAddress s = map_option (addressToString f) (apiRemoteAddress ps)))))"
proof -
  note cw = constructWebSession_cases [of "sessionContextMap v" "paramUserInfo ps" "paramContext ps"
      "strNat (unat (sessionIdCounter v))" "hexEncode (paramTabId ps)"]
  have "sessionIdCounter (fst (newSession f v ps)) = sessionIdCounter v + 1
        \<and> (snd (newSession f v ps) = Inl BadIdentityId
            \<or> (\<exists>s. snd (newSession f v ps) = Inr (WebSessionOf s)
                 \<and> sessionId s = strNat (unat (sessionIdCounter v))
                 \<and> tabId s = hexEncode (paramTabId ps)
                 \<and> permissions s
                     = strArray (map fst (filter snd (zip (viewPermissions (config v)) (userPermissions ps)))) '',''
                 \<and> rootPath s = ''/'' \<and> basePath s = webBasePath ps \<and> remoteAddress s = None))"
    if "sessionType ps = WebSessionType"
    using that cw [of "webBasePath ps" "webUserAgent ps" "strArray (webAcceptableLanguages ps) '',''"
        "''/''" "formatPermissions (config v) (userPermissions ps)" None]
    by (auto simp: newSession_def supported_def addSession_def formatPermissions_def
        dest!: newWebSession_Inr)
  moreover have "sessionIdCounter (fst (newSession f v ps)) = sessionIdCounter v + 1
        \<and> (snd (newSession f v ps) = Inl BadIdentityId
            \<or> (\<exists>s. snd (newSession f v ps) = Inr (WebSessionOf s)
                 \<and> sessionId s = strNat (unat (sessionIdCounter v))
                 \<and> tabId s = hexEncode (paramTabId ps)
                 \<and> permissions s
                     = strArray (map fst (filter snd (zip (viewPermissions (config v)) (userPermissions ps)))) '',''
                 \<and> rootPath s = apiPath (config v) \<and> basePath s = []
                 \<and> remoteAddress s = map_option (addressToString f) (apiRemoteAddress ps)))"
    if "sessionType ps = ApiSessionType" "supported (config v) (sessionType ps)"
    using that cw [of "[]" "[]" "[]" "apiPath (config v)"
        "formatPermissions (config v) (userPermissions ps)"
        "map_option (addressToString f) (apiRemoteAddress ps)"]
    by (auto simp: newSession_def addSession_def formatPermissions_def dest!: newWebSession_Inr)
  moreover have "sessionType ps = WebSessionType \<or> sessionType ps = ApiSessionType"
    if "supported (config v) (sessionType ps)" "sessionType ps \<noteq> HackEmailSessionType"
    using that by (auto simp: supported_def)
  ultimately show ?thesis
    using newSession_unsupported [of v ps f] newSession_email [of ps f v] by auto
qed

theorem newSession_outcome_witness:
  "newSession bytesText (newUiView \<lparr>apiPath = [], viewPermissions = [''read'', ''write'', ''admin'']\<rparr>)
       ((webParams (7::nat))\<lparr>sessionType := ApiSessionType\<rparr>)
     = (newUiView \<lparr>apiPath = [], viewPermissions = [''read'', ''write'', ''admin'']\<rparr>,
        Inl UnsupportedSessionType)
   \<and> snd (newSession bytesText (newUiView \<lparr>apiPath = [], viewPermissions = [''read'', ''write'', ''admin'']\<rparr>)
           (webParams (7::nat)))
     = Inr (WebSessionOf (annSession \<lparr>apiPath = [], viewPermissions = [''read'', ''write'', ''admin'']\<rparr> ''0''))
   \<and> permissions (annSession \<lparr>apiPath = [], viewPermissions = [''read'', ''write'', ''admin'']\<rparr> ''0'')
     = ''read,admin''"
proof -
  let ?cfg = "\<lparr>apiPath = [], viewPermissions = [''read'', ''write'', ''admin'']\<rparr>"
  have s: "\<not> supported (config (newUiView ?cfg :: nat UiViewImpl))
              (sessionType ((webParams (7::nat))\<lparr>sessionType := ApiSessionType\<rparr>))"
    by (simp add: supported_def newUiView_def)
  from newSession_outcome [of "newUiView ?cfg" "(webParams (7::nat))\<lparr>sessionType := ApiSessionType\<rparr>" bytesText] s
  have "newSession bytesText (newUiView ?cfg) ((webParams (7::nat))\<lparr>sessionType := ApiSessionType\<rparr>)
     = (newUiView ?cfg, Inl UnsupportedSessionType)"
    by blast
  then show ?thesis
    by (simp add: newSession_webParams addSession_def newUiView_def annSession_def
        formatPermissions_def)
qed

text \<open>
  C40.  The remote address of an API session.  An address whose upper half is
  zero and whose lower half has \<open>0xffff\<close> above its low 32 bits is an IPv4
  address and is written as the dotted quad of those 32 bits, most significant
  byte first; any other address is handed to the C library as the sixteen
  bytes of the upper half followed by those of the lower half, most
  significant byte first, each below 256.
\<close>

theorem addressToString_ipv4:
  "(upper64 a = 0 \<and> drop_bit 32 (lower64 a) = 0xffff \<longrightarrow>
      addressToString f a
        = strNat (byteAt (lower64 a) 24) @ ''.'' @ strNat (byteAt (lower64 a) 16) @ ''.''
          @ strNat (byteAt (lower64 a) 8) @ ''.'' @ strNat (byteAt (lower64 a) 0))
   \<and> (\<not> (upper64 a = 0 \<and> drop_bit 32 (lower64 a) = 0xffff) \<longrightarrow>
        (\<exists>bs. addressToString f a = f bs \<and> length bs = 16 \<and> list_all (\<lambda>b. b < 256) bs
           \<and> bs = map (byteAt (upper64 a)) [56, 48, 40, 32, 24, 16, 8, 0]
                @ map (byteAt (lower64 a)) [56, 48, 40, 32, 24, 16, 8, 0]))"
proof -
  have "byteAt (and (lower64 a) 0xffffffff) n = byteAt (lower64 a) n" if "n \<in> {0, 8, 16, 24}" for n
  proof -
    have m: "(0xff :: 64 word) = mask 8" "(0xffffffff :: 64 word) = mask 32"
      by (simp_all add: mask_eq_exp_minus_1)
    have "and (drop_bit n (and (lower64 a) 0xffffffff)) 0xff = and (drop_bit n (lower64 a)) 0xff"
      unfolding m using that by (auto intro!: bit_eqI simp: bit_simps)
    then show ?thesis by (simp add: byteAt_def)
  qed
  then show ?thesis
    by (simp add: addressToString_def inet_ntop4_def Let_def)
qed

theorem addressToString_ipv4_witness:
  "addressToString bytesText \<lparr>lower64 = 0xffffc0a80001, upper64 = 0\<rparr> = ''192.168.0.1''
   \<and> addressToString bytesText \<lparr>lower64 = 1, upper64 = 0x20010db800000000\<rparr>
       = ''32 1 13 184 0 0 0 0 0 0 0 0 0 0 0 1''"
proof -
  have d: "drop_bit 32 (0xffffc0a80001 :: 64 word) = 0xffff"
    "byteAt (0xffffc0a80001 :: 64 word) 24 = 192" "byteAt (0xffffc0a80001 :: 64 word) 16 = 168"
    "byteAt (0xffffc0a80001 :: 64 word) 8 = 0" "byteAt (0xffffc0a80001 :: 64 word) 0 = 1"
    by (simp_all add: byteAt_def drop_bit_eq_div)
  have u: "map (byteAt (0x20010db800000000 :: 64 word)) [56, 48, 40, 32, 24, 16, 8, 0]
      = [32, 1, 13, 184, 0, 0, 0, 0]"
    "map (byteAt (1 :: 64 word)) [56, 48, 40, 32, 24, 16, 8, 0] = [0, 0, 0, 0, 0, 0, 0, 1]"
    by (simp_all add: byteAt_def drop_bit_eq_div)
  from addressToString_ipv4 [of "\<lparr>lower64 = 0xffffc0a80001, upper64 = 0\<rparr>" bytesText]
    addressToString_ipv4 [of "\<lparr>lower64 = 1, upper64 = 0x20010db800000000\<rparr>"
      bytesText] d u
  show ?thesis by (simp add: bytesText_def)
qed

end
