(* ===== verification/Mail_Sink.thy ===== *)
theory Mail_Sink
  imports Bridge_Prelude
begin

text \<open>
  \<^verbatim>\<open>EmailSessionImpl\<close> (lines 1400-1547), the mail sink: \<^verbatim>\<open>send\<close> builds the text
  of a MIME message from a structured mail and stores it in the mail
  directory under a random name; \<^verbatim>\<open>genRandomString\<close> makes that name from 16
  random bytes with a 32-bit shift register.

  The 16 bytes read from \<^verbatim>\<open>/dev/urandom\<close> are an argument.  The text of the
  date (\<^verbatim>\<open>gmtime\<close> and \<^verbatim>\<open>strftime\<close>) and \<^verbatim>\<open>base64Encode\<close> of \<^verbatim>\<open>util.h\<close> are
  parameters.  The mail directory is a map from path to file content.  The
  three system calls of \<^verbatim>\<open>send\<close> are steps of their own, each of which can
  fail: \<^verbatim>\<open>open\<close> with \<^verbatim>\<open>O_EXCL\<close> fails when the file exists or when the
  environment says so, \<^verbatim>\<open>write\<close> can stop after any number of bytes, and
  \<^verbatim>\<open>rename\<close>, which replaces its target in one step, can fail and then changes
  nothing.  Which of them fails is given by a \<open>Disk\<close>.
\<close>

section \<open>The mail\<close>

record EmailAddress =
  addressName :: string
  addressAddress :: string

record EmailAttachment =
  attachmentContentType :: string
  attachmentContentDisposition :: string
  attachmentContentId :: string
  attachmentContent :: bytes

record EmailMessage =
  mailDate :: int
  mailFrom :: EmailAddress
  mailTo :: "EmailAddress list"
  mailCc :: "EmailAddress list"
  mailBcc :: "EmailAddress list"
  mailReplyTo :: EmailAddress
  mailMessageId :: string
  mailReferences :: "string list"
  mailInReplyTo :: "string list"
  mailSubject :: string
  mailText :: "string option"
  mailHtml :: "string option"
  mailAttachments :: "EmailAttachment list"

section \<open>genRandomString\<close>

definition DIGITS :: string where
  "DIGITS = ''0123456789ABCDEFGHIJKLMNOPQRSTUVWXYZabcdefghijklmnopqrstuvwxyz_.''"

function drain :: "32 word \<Rightarrow> nat \<Rightarrow> string \<Rightarrow> 32 word \<times> nat \<times> string" where
  "drain buffer bufBits chars =
     (if bufBits \<ge> 6
      then drain (drop_bit 6 buffer) (bufBits - 6) (chars @ [DIGITS ! unat (and buffer 63)])
      else (buffer, bufBits, chars))"
  by pat_completeness auto

termination
  by (relation "measure (\<lambda>(buffer, bufBits, chars). bufBits)") auto

declare drain.simps [simp del]

definition addByte :: "32 word \<times> nat \<times> string \<Rightarrow> char \<Rightarrow> 32 word \<times> nat \<times> string" where
  "addByte st b =
     (case st of (buffer, bufBits, chars) \<Rightarrow>
        drain (or buffer (push_bit bufBits (of_nat (uchar b)))) (bufBits + 8) chars)"

definition genRandomString :: "bytes \<Rightarrow> string" where
  "genRandomString bytes =
     (case foldl addByte (0, 0, []) bytes of
        (buffer, bufBits, chars) \<Rightarrow> chars @ [DIGITS ! unat (and buffer 63)])"

section \<open>The lines of the file\<close>

definition addHeaderText :: "string list \<Rightarrow> string \<Rightarrow> string \<Rightarrow> string list" where
  "addHeaderText lines nm v = (if v \<noteq> [] then lines @ [nm @ '': '' @ v] else lines)"

definition formatAddress :: "EmailAddress \<Rightarrow> string" where
  "formatAddress email =
     (if addressName email = [] then addressAddress email
      else addressName email @ '' <'' @ addressAddress email @ ''>'')"

definition addHeaderAddress :: "string list \<Rightarrow> string \<Rightarrow> EmailAddress \<Rightarrow> string list" where
  "addHeaderAddress lines nm email = addHeaderText lines nm (formatAddress email)"

definition addHeaderAddresses :: "string list \<Rightarrow> string \<Rightarrow> EmailAddress list \<Rightarrow> string list" where
  "addHeaderAddresses lines nm emails = addHeaderText lines nm (strArray (map formatAddress emails) '', '')"

definition addHeaderItems :: "string list \<Rightarrow> string \<Rightarrow> string list \<Rightarrow> string list" where
  "addHeaderItems lines nm items =
     addHeaderText lines nm (strArray (map (\<lambda>i. ''<'' @ i @ ''>'') items) '' '')"

definition truncDiv :: "int \<Rightarrow> int \<Rightarrow> int" where
  "truncDiv a b = (if a < 0 then - ((- a) div b) else a div b)"

definition addDateHeader :: "(int \<Rightarrow> string) \<Rightarrow> string list \<Rightarrow> int \<Rightarrow> string list" where
  "addDateHeader strftime_gmtime lines nanoseconds =
     addHeaderText lines ''Date'' (strftime_gmtime (truncDiv nanoseconds 1000000000))"

definition addAttachment ::
  "(bytes \<Rightarrow> string) \<Rightarrow> string list \<Rightarrow> string \<Rightarrow> EmailAttachment \<Rightarrow> string list" where
  "addAttachment base64Encode lines boundaryId attachment =
     (let l1 = lines @ [''--'' @ boundaryId];
          l2 = addHeaderText l1 ''Content-Type'' (attachmentContentType attachment);
          l3 = addHeaderText l2 ''Content-Disposition'' (attachmentContentDisposition attachment);
          l4 = addHeaderText l3 ''Content-Transfer-Encoding'' ''base64'';
          l5 = addHeaderText l4 ''Content-Id'' (attachmentContentId attachment)
      in l5 @ [[], base64Encode (attachmentContent attachment)])"

definition mailHead :: "(int \<Rightarrow> string) \<Rightarrow> EmailMessage \<Rightarrow> string \<Rightarrow> string list" where
  "mailHead strftime_gmtime email ident =
     (let l0 = addDateHeader strftime_gmtime [] (mailDate email);
          l1 = addHeaderAddresses l0 ''To'' (mailTo email);
          l2 = addHeaderAddress l1 ''From'' (mailFrom email);
          l3 = addHeaderAddress l2 ''Reply-To'' (mailReplyTo email);
          l4 = addHeaderAddresses l3 ''CC'' (mailCc email);
          l5 = addHeaderAddresses l4 ''BCC'' (mailBcc email);
          l6 = addHeaderText l5 ''Subject'' (mailSubject email);
          l7 = addHeaderText l6 ''Message-Id'' (mailMessageId email);
          l8 = addHeaderItems l7 ''References'' (mailReferences email);
          l9 = addHeaderItems l8 ''In-Reply-To'' (mailInReplyTo email)
      in addHeaderText l9 ''Content-Type'' (''multipart/alternative; boundary='' @ ident))"

definition textPart :: "string list \<Rightarrow> string \<Rightarrow> string \<Rightarrow> string \<Rightarrow> string list" where
  "textPart lines ident contentType body =
     addHeaderText (lines @ [''--'' @ ident]) ''Content-Type'' contentType @ [[], body]"

definition mailLines ::
  "(int \<Rightarrow> string) \<Rightarrow> (bytes \<Rightarrow> string) \<Rightarrow> EmailMessage \<Rightarrow> string \<Rightarrow> string list" where
  "mailLines strftime_gmtime base64Encode email ident =
     (let l0 = mailHead strftime_gmtime email ident @ [[]];
          l1 = (case mailText email of
                  Some t \<Rightarrow> textPart l0 ident ''text/plain; charset=UTF-8'' t | None \<Rightarrow> l0);
          l2 = (case mailHtml email of
                  Some h \<Rightarrow> textPart l1 ident ''text/html; charset=UTF-8'' h | None \<Rightarrow> l1);
          l3 = foldl (\<lambda>lines a. addAttachment base64Encode lines ident a) l2 (mailAttachments email)
      in l3 @ [''--'' @ ident @ ''--'', []])"

section \<open>send\<close>

type_synonym files = "string \<rightharpoonup> bytes"

record Disk =
  openFails :: bool
  writeStops :: "nat option"
  renameFails :: bool

definition raiiOpen :: "bool \<Rightarrow> files \<Rightarrow> string \<Rightarrow> files result" where
  "raiiOpen fails fs name =
     (if fails \<or> fs name \<noteq> None then Inl (SyscallFailed name) else Inr (fs(name \<mapsto> [])))"

definition fdWrite :: "nat option \<Rightarrow> files \<Rightarrow> string \<Rightarrow> bytes \<Rightarrow> files \<times> error option" where
  "fdWrite stops fs name txt =
     (case stops of
        None \<Rightarrow> (fs(name \<mapsto> txt), None)
      | Some n \<Rightarrow> (fs(name \<mapsto> take n txt), Some (SyscallFailed ''write'')))"

definition renameFile :: "bool \<Rightarrow> files \<Rightarrow> string \<Rightarrow> string \<Rightarrow> files result" where
  "renameFile fails fs old new =
     (if fails then Inl (SyscallFailed ''rename'') else Inr ((fs(old := None))(new := fs old)))"

definition send ::
  "(int \<Rightarrow> string) \<Rightarrow> (bytes \<Rightarrow> string) \<Rightarrow> Disk \<Rightarrow> files \<Rightarrow> EmailMessage \<Rightarrow> bytes
     \<Rightarrow> files \<times> error option" where
  "send strftime_gmtime base64Encode disk fs email random =
     (let ident = genRandomString random;
          txt = strArray (mailLines strftime_gmtime base64Encode email ident) [LF];
          tmpFilename = ''/var/mail/tmp/_'' @ ident
      in case raiiOpen (openFails disk) fs tmpFilename of
           Inl err \<Rightarrow> (fs, Some err)
         | Inr fs1 \<Rightarrow>
             (case fdWrite (writeStops disk) fs1 tmpFilename txt of
                (fs2, Some err) \<Rightarrow> (fs2, Some err)
              | (fs2, None) \<Rightarrow>
                  (case renameFile (renameFails disk) fs2 tmpFilename (''/var/mail/new/_'' @ ident) of
                     Inl err \<Rightarrow> (fs2, Some err)
                   | Inr fs3 \<Rightarrow> (fs3, None))))"

section \<open>Specification\<close>

text \<open>
  The number a byte string stands for, least significant byte first; the
  position of a character in a string; and the number a string of digits of
  \<open>DIGITS\<close> stands for, least significant digit first.
\<close>

fun leNat :: "bytes \<Rightarrow> nat" where
  "leNat [] = 0"
| "leNat (b # bs) = uchar b + 256 * leNat bs"

definition indexOf :: "string \<Rightarrow> char \<Rightarrow> nat" where
  "indexOf s c = length (takeWhile (\<lambda>x. x \<noteq> c) s)"

fun decode64 :: "string \<Rightarrow> nat" where
  "decode64 [] = 0"
| "decode64 (c # cs) = indexOf DIGITS c + 64 * decode64 cs"

definition queueInv :: "32 word \<times> nat \<times> string \<Rightarrow> nat \<Rightarrow> nat \<Rightarrow> bool" where
  "queueInv st N k =
     (case st of (buffer, bufBits, chars) \<Rightarrow>
        bufBits < 6 \<and> unat buffer < 2 ^ bufBits \<and> list_all (\<lambda>c. c \<in> set DIGITS) chars
        \<and> decode64 chars + unat buffer * 64 ^ length chars = N
        \<and> bufBits + 6 * length chars = 8 * k)"

definition plainMail :: EmailMessage where
  "plainMail =
     \<lparr>mailDate = 816416724000000000,
      mailFrom = \<lparr>addressName = ''Ann'', addressAddress = ''ann@example.com''\<rparr>,
      mailTo = [\<lparr>addressName = [], addressAddress = ''bob@example.com''\<rparr>,
                \<lparr>addressName = ''Cy'', addressAddress = ''cy@example.com''\<rparr>],
      mailCc = [], mailBcc = [],
      mailReplyTo = \<lparr>addressName = [], addressAddress = []\<rparr>,
      mailMessageId = [], mailReferences = [''a@x'', ''b@x''], mailInReplyTo = [],
      mailSubject = ''Hi'', mailText = Some ''hello'', mailHtml = None, mailAttachments = []\<rparr>"

definition headerPairs :: "(int \<Rightarrow> string) \<Rightarrow> EmailMessage \<Rightarrow> string \<Rightarrow> (string \<times> string) list" where
  "headerPairs strftime_gmtime email ident =
     [(''Date'', strftime_gmtime (truncDiv (mailDate email) 1000000000)),
      (''To'', strArray (map formatAddress (mailTo email)) '', ''),
      (''From'', formatAddress (mailFrom email)),
      (''Reply-To'', formatAddress (mailReplyTo email)),
      (''CC'', strArray (map formatAddress (mailCc email)) '', ''),
      (''BCC'', strArray (map formatAddress (mailBcc email)) '', ''),
      (''Subject'', mailSubject email),
      (''Message-Id'', mailMessageId email),
      (''References'', strArray (map (\<lambda>i. ''<'' @ i @ ''>'') (mailReferences email)) '' ''),
      (''In-Reply-To'', strArray (map (\<lambda>i. ''<'' @ i @ ''>'') (mailInReplyTo email)) '' ''),
      (''Content-Type'', ''multipart/alternative; boundary='' @ ident)]"

definition headerLinesOf :: "(string \<times> string) list \<Rightarrow> string list" where
  "headerLinesOf pairs = map (\<lambda>(nm, v). nm @ '': '' @ v) (filter (\<lambda>(nm, v). v \<noteq> []) pairs)"

definition fixedDate :: "int \<Rightarrow> string" where
  "fixedDate seconds = ''Wed, 15 Nov 1995 06:25:24 +0000''"

definition identityCoding :: "bytes \<Rightarrow> string" where
  "identityCoding content = content"

definition goodDisk :: Disk where
  "goodDisk = \<lparr>openFails = False, writeStops = None, renameFails = False\<rparr>"

section \<open>Words as bit queues\<close>

lemma or_push_bit_nat:
  fixes v b :: nat
  assumes "v < 2 ^ n"
  shows "or v (push_bit n b) = v + b * 2 ^ n"
proof -
  from assms have t: "take_bit n v = v" by (simp add: take_bit_nat_eq_self)
  have "\<not> bit v m \<or> \<not> bit (push_bit n b) m" for m
  proof (cases "m < n")
    case True
    then show ?thesis by (simp add: bit_push_bit_iff)
  next
    case False
    then have "\<not> bit (take_bit n v) m" by (simp add: bit_take_bit_iff)
    with t show ?thesis by simp
  qed
  then have "v + push_bit n b = or v (push_bit n b)" by (rule disjunctive_add)
  then show ?thesis by (simp add: push_bit_eq_mult)
qed

lemma unat_or_push_bit:
  fixes w :: "32 word"
  assumes "unat w < 2 ^ n" and "b < 256" and "n < 6"
  shows "unat (or w (push_bit n (of_nat b))) = unat w + b * 2 ^ n"
proof -
  from assms have "b * 2 ^ n < 256 * 2 ^ 6"
    by (intro mult_strict_mono) (simp_all add: power_strict_increasing_iff [of 2 n 6, simplified])
  then have s: "b * 2 ^ n < 2 ^ 32" by simp
  have "push_bit n (of_nat b :: 32 word) = of_nat (b * 2 ^ n)" by (simp add: push_bit_eq_mult)
  then have "unat (push_bit n (of_nat b :: 32 word)) = b * 2 ^ n"
    using s by (simp only: unat_of_nat) simp
  then have "unat (or w (push_bit n (of_nat b))) = or (unat w) (push_bit n b)"
    by (simp add: unsigned_or_eq push_bit_eq_mult)
  with or_push_bit_nat [OF assms(1), of b] show ?thesis by simp
qed

lemma unat_and_63: "unat (and (w :: 32 word) 63) = unat w mod 64"
proof -
  have "(63 :: 32 word) = mask 6" by (simp add: mask_eq_exp_minus_1)
  then have "and w 63 = take_bit 6 w" by (simp add: take_bit_eq_mask)
  then show ?thesis by (simp add: take_bit_eq_mod unat_mod)
qed

lemma unat_drop_bit_6: "unat (drop_bit 6 (w :: 32 word)) = unat w div 64"
  by (simp add: drop_bit_eq_div unat_div)

section \<open>The digits\<close>

lemma length_DIGITS [simp]: "length DIGITS = 64"
  by (simp add: DIGITS_def)

lemma distinct_DIGITS: "distinct DIGITS"
  by (simp add: DIGITS_def)

lemma indexOf_nth: "distinct s \<Longrightarrow> i < length s \<Longrightarrow> indexOf s (s ! i) = i"
proof (induction s arbitrary: i)
  case Nil
  then show ?case by simp
next
  case (Cons x s)
  then show ?case by (cases i) (auto simp: indexOf_def)
qed

lemma indexOf_DIGITS [simp]: "d < 64 \<Longrightarrow> indexOf DIGITS (DIGITS ! d) = d"
  by (simp add: indexOf_nth distinct_DIGITS)

lemma DIGITS_nth_mem [simp]: "DIGITS ! (n mod 64) \<in> set DIGITS"
  by (rule nth_mem) simp

lemma decode64_snoc: "decode64 (cs @ [c]) = decode64 cs + indexOf DIGITS c * 64 ^ length cs"
  by (induction cs) (simp_all add: algebra_simps)

lemma leNat_snoc: "leNat (bs @ [b]) = leNat bs + uchar b * 256 ^ length bs"
  by (induction bs) (simp_all add: algebra_simps)

lemma leNat_less: "leNat bs < 256 ^ length bs"
proof (induction bs)
  case Nil
  show ?case by simp
next
  case (Cons b bs)
  have "uchar b + 256 * leNat bs < 256 + 256 * leNat bs" using uchar_less_256 [of b] by simp
  also have "\<dots> = 256 * Suc (leNat bs)" by simp
  also from Cons have "\<dots> \<le> 256 * 256 ^ length bs" by (intro mult_le_mono2) simp
  finally show ?case by simp
qed

lemma leNat_inj: "length a = length b \<Longrightarrow> leNat a = leNat b \<Longrightarrow> a = b"
proof (induction a arbitrary: b)
  case Nil
  then show ?case by simp
next
  case (Cons x a)
  then obtain y b' where b: "b = y # b'" by (cases b) auto
  with Cons.prems have e: "uchar x + 256 * leNat a = uchar y + 256 * leNat b'" by simp
  then have "(uchar x + 256 * leNat a) mod 256 = (uchar y + 256 * leNat b') mod 256" by simp
  then have x: "uchar x = uchar y" by simp
  with e have "leNat a = leNat b'" by simp
  with Cons.IH [of b'] Cons.prems b x show ?case by simp
qed

section \<open>The shift register\<close>

lemma drain_result:
  assumes "unat buffer < 2 ^ n" and "list_all (\<lambda>c. c \<in> set DIGITS) chars"
  shows "case drain buffer n chars of
           (buffer', n', chars') \<Rightarrow>
             n' < 6 \<and> unat buffer' < 2 ^ n' \<and> list_all (\<lambda>c. c \<in> set DIGITS) chars'
             \<and> decode64 chars' + unat buffer' * 64 ^ length chars'
                 = decode64 chars + unat buffer * 64 ^ length chars
             \<and> n' + 6 * length chars' = n + 6 * length chars"
  using assms
proof (induction buffer n chars rule: drain.induct)
  case (1 buffer n chars)
  show ?case
  proof (cases "n \<ge> 6")
    case False
    with "1.prems" show ?thesis by (subst drain.simps) simp
  next
    case True
    then obtain m where n: "n = 6 + m" by (metis le_Suc_ex)
    with "1.prems"(1) have "unat buffer < 64 * 2 ^ m" by (simp add: power_add)
    then have small: "unat (drop_bit 6 buffer) < 2 ^ (n - 6)"
      by (simp add: unat_drop_bit_6 n div_less_iff_less_mult mult.commute)
    have c: "list_all (\<lambda>c. c \<in> set DIGITS) (chars @ [DIGITS ! unat (and buffer 63)])"
      using "1.prems"(2) by (simp add: unat_and_63)
    have "unat buffer * 64 ^ length chars
        = (unat buffer div 64 * 64 + unat buffer mod 64) * 64 ^ length chars"
      by simp
    also have "\<dots> = unat buffer div 64 * 64 ^ Suc (length chars)
        + unat buffer mod 64 * 64 ^ length chars"
      by (simp only: add_mult_distrib mult.assoc power_Suc)
    finally have "decode64 (chars @ [DIGITS ! unat (and buffer 63)])
          + unat (drop_bit 6 buffer) * 64 ^ length (chars @ [DIGITS ! unat (and buffer 63)])
        = decode64 chars + unat buffer * 64 ^ length chars"
      by (simp add: decode64_snoc unat_and_63 unat_drop_bit_6)
    with "1.IH" [OF True small c] True show ?thesis
      by (subst drain.simps) (simp split: prod.splits)
  qed
qed

lemma addByte_queueInv:
  assumes "queueInv st N k"
  shows "queueInv (addByte st b) (N + uchar b * 256 ^ k) (Suc k)"
proof -
  obtain buffer n chars where st: "st = (buffer, n, chars)" by (cases st)
  with assms have n: "n < 6" and v: "unat buffer < 2 ^ n"
    and c: "list_all (\<lambda>c. c \<in> set DIGITS) chars"
    and d: "decode64 chars + unat buffer * 64 ^ length chars = N"
    and l: "n + 6 * length chars = 8 * k"
    by (simp_all add: queueInv_def)
  let ?w = "or buffer (push_bit n (of_nat (uchar b)))"
  have u: "unat ?w = unat buffer + uchar b * 2 ^ n"
    by (rule unat_or_push_bit [OF v _ n]) simp
  have "uchar b \<le> 255" using uchar_less_256 [of b] by (simp del: uchar_less_256)
  then have "uchar b * 2 ^ n \<le> 255 * 2 ^ n" by (rule mult_le_mono1)
  with v have "unat buffer + uchar b * 2 ^ n < 2 ^ n + 255 * 2 ^ n" by (rule add_less_le_mono)
  with u have w: "unat ?w < 2 ^ (n + 8)" by (simp add: power_add)
  have "(2::nat) ^ n * 64 ^ length chars = 2 ^ (n + 6 * length chars)"
    by (simp add: power_add power_mult)
  also have "\<dots> = 256 ^ k" using l by (simp add: power_mult)
  finally have p: "(2::nat) ^ n * 64 ^ length chars = 256 ^ k" .
  have "decode64 chars + unat ?w * 64 ^ length chars = N + uchar b * (2 ^ n * 64 ^ length chars)"
    using d u by (simp add: algebra_simps)
  with p have e: "decode64 chars + unat ?w * 64 ^ length chars = N + uchar b * 256 ^ k" by simp
  from drain_result [OF w c] e l st show ?thesis
    by (auto simp: queueInv_def addByte_def split: prod.splits)
qed

lemma foldl_addByte_queueInv:
  assumes "queueInv st (leNat pre) (length pre)"
  shows "queueInv (foldl addByte st bs) (leNat (pre @ bs)) (length (pre @ bs))"
  using assms
proof (induction bs arbitrary: st pre)
  case Nil
  then show ?case by simp
next
  case (Cons b bs)
  from addByte_queueInv [OF Cons.prems, of b]
  have "queueInv (addByte st b) (leNat (pre @ [b])) (length (pre @ [b]))"
    by (simp add: leNat_snoc)
  from Cons.IH [OF this] show ?case by simp
qed

lemma genRandomString_decode:
  "decode64 (genRandomString bytes) = leNat bytes
   \<and> list_all (\<lambda>c. c \<in> set DIGITS) (genRandomString bytes)
   \<and> 6 * length (genRandomString bytes) = 8 * length bytes + (6 - (8 * length bytes) mod 6)"
proof -
  have "queueInv (0, 0, []) (leNat []) (length ([] :: bytes))" by (simp add: queueInv_def)
  from foldl_addByte_queueInv [OF this, of bytes]
  obtain buffer n chars where f: "foldl addByte (0, 0, []) bytes = (buffer, n, chars)"
    and n: "n < 6" and v: "unat buffer < 2 ^ n"
    and c: "list_all (\<lambda>c. c \<in> set DIGITS) chars"
    and d: "decode64 chars + unat buffer * 64 ^ length chars = leNat bytes"
    and l: "n + 6 * length chars = 8 * length bytes"
    by (cases "foldl addByte (0, 0, []) bytes") (auto simp: queueInv_def)
  from n have "(2::nat) ^ n < 2 ^ 6" by (rule power_strict_increasing) simp
  with v have m: "unat buffer mod 64 = unat buffer" by simp
  from l n have "(8 * length bytes) mod 6 = n"
    by (metis mod_less mod_mult_self2 mult.commute)
  with f c d l m show ?thesis
    by (simp add: genRandomString_def decode64_snoc unat_and_63)
qed

lemma no_slash_DIGITS: "CHR ''/'' \<notin> set DIGITS" "NUL \<notin> set DIGITS" "LF \<notin> set DIGITS"
  by (simp_all add: DIGITS_def)

section \<open>Lemmas on the lines\<close>

lemma addHeaderText_headerLinesOf:
  "addHeaderText (ls @ headerLinesOf ps) nm v = ls @ headerLinesOf (ps @ [(nm, v)])"
  by (simp add: addHeaderText_def headerLinesOf_def)

lemma mailHead_pairs: "mailHead f email ident = headerLinesOf (headerPairs f email ident)"
proof -
  have a: "addHeaderText [] nm v = headerLinesOf [(nm, v)]" for nm v
    using addHeaderText_headerLinesOf [of "[]" "[]" nm v] by (simp add: headerLinesOf_def)
  have b: "addHeaderText (headerLinesOf ps) nm v = headerLinesOf (ps @ [(nm, v)])" for ps nm v
    using addHeaderText_headerLinesOf [of "[]" ps nm v] by simp
  show ?thesis
    by (simp add: mailHead_def addDateHeader_def addHeaderAddress_def addHeaderAddresses_def
        addHeaderItems_def headerPairs_def a b Let_def)
qed

lemma headerLinesOf_nonempty: "l \<in> set (headerLinesOf ps) \<Longrightarrow> l \<noteq> []"
  by (auto simp: headerLinesOf_def)

lemma takeWhile_head:
  "\<forall>l \<in> set hs. l \<noteq> [] \<Longrightarrow> takeWhile (\<lambda>l. l \<noteq> []) (hs @ [] # rest) = hs"
  by (induction hs) simp_all

lemma textPart_shape: "\<exists>more. textPart ls ident ct body = ls @ (''--'' @ ident) # more @ [body]"
  by (simp add: textPart_def addHeaderText_def)

lemma addAttachment_shape:
  "\<exists>more. addAttachment b64 ls ident a = ls @ (''--'' @ ident) # more @ [b64 (attachmentContent a)]"
  by (simp add: addAttachment_def addHeaderText_def Let_def)

lemma foldl_addAttachment_prefix:
  "\<exists>more. foldl (\<lambda>lines a. addAttachment b64 lines ident a) ls as = ls @ more"
proof (induction as arbitrary: ls)
  case Nil
  show ?case by simp
next
  case (Cons a as)
  from addAttachment_shape [of b64 ls ident a] obtain m where
    "addAttachment b64 ls ident a = ls @ (''--'' @ ident) # m @ [b64 (attachmentContent a)]" by blast
  with Cons [of "addAttachment b64 ls ident a"] show ?case by auto
qed

lemma mailLines_shape:
  "\<exists>parts. mailLines f b64 email ident =
      mailHead f email ident @ [] # parts @ [''--'' @ ident @ ''--'', []]"
proof -
  let ?l0 = "mailHead f email ident @ [[]]"
  obtain m1 where 1: "(case mailText email of
      Some t \<Rightarrow> textPart ?l0 ident ''text/plain; charset=UTF-8'' t | None \<Rightarrow> ?l0) = ?l0 @ m1"
    using textPart_shape [of ?l0 ident] by (cases "mailText email") auto
  obtain m2 where 2: "(case mailHtml email of
      Some h \<Rightarrow> textPart (?l0 @ m1) ident ''text/html; charset=UTF-8'' h | None \<Rightarrow> ?l0 @ m1)
      = ?l0 @ m1 @ m2"
    using textPart_shape [of "?l0 @ m1" ident] by (cases "mailHtml email") auto
  obtain m3 where 3: "foldl (\<lambda>lines a. addAttachment b64 lines ident a) (?l0 @ m1 @ m2)
      (mailAttachments email) = (?l0 @ m1 @ m2) @ m3"
    using foldl_addAttachment_prefix [of b64 ident "?l0 @ m1 @ m2"] by blast
  have "mailLines f b64 email ident = mailHead f email ident @ [] # (m1 @ m2 @ m3) @ [''--'' @ ident @ ''--'', []]"
    unfolding mailLines_def Let_def 1 2 3 by simp
  then show ?thesis by blast
qed

lemma mailLines_plainMail:
  "mailLines fixedDate b64 plainMail ''B'' =
     [''Date: Wed, 15 Nov 1995 06:25:24 +0000'', ''To: bob@example.com, Cy <cy@example.com>'',
      ''From: Ann <ann@example.com>'', ''Subject: Hi'', ''References: <a@x> <b@x>'',
      ''Content-Type: multipart/alternative; boundary=B'', [],
      ''--B'', ''Content-Type: text/plain; charset=UTF-8'', [], ''hello'', ''--B--'', []]"
  by (simp add: mailLines_def mailHead_def addDateHeader_def addHeaderAddress_def
      addHeaderAddresses_def addHeaderItems_def addHeaderText_def formatAddress_def textPart_def
      plainMail_def fixedDate_def Let_def)

section \<open>Properties\<close>

text \<open>
  C21.  The name of a mail file.  For 16 random bytes the name has 22
  characters, all from the 64 digits (so none is a slash, a newline or NUL),
  and read as a number in base 64, least significant digit first, it is the
  number the 16 bytes stand for, least significant byte first: the 32-bit
  shift register loses no bit, and two mails get the same name only for the
  same random bytes.
\<close>

theorem genRandomString_unique:
  assumes "length a = 16" and "length b = 16"
  shows "length (genRandomString a) = 22
       \<and> list_all (\<lambda>c. c \<in> set DIGITS) (genRandomString a)
       \<and> CHR ''/'' \<notin> set (genRandomString a)
       \<and> decode64 (genRandomString a) = leNat a
       \<and> (genRandomString a = genRandomString b \<longleftrightarrow> a = b)"
proof -
  note d = genRandomString_decode [of a]
  from d assms(1) have l: "length (genRandomString a) = 22" by simp
  from d no_slash_DIGITS(1) have s: "CHR ''/'' \<notin> set (genRandomString a)"
    by (auto simp: list_all_iff)
  have "a = b" if "genRandomString a = genRandomString b"
  proof -
    from that d genRandomString_decode [of b] have "leNat a = leNat b" by simp
    with assms show ?thesis by (intro leNat_inj) simp_all
  qed
  with d l s show ?thesis by auto
qed

theorem genRandomString_unique_witness:
  "length (genRandomString (replicate 16 (CHR 0x00))) = 22
   \<and> decode64 (genRandomString (replicate 16 (CHR 0x00))) = 0
   \<and> genRandomString (replicate 16 (CHR 0x00)) \<noteq> genRandomString (replicate 15 (CHR 0x00) @ [CHR 0x01])"
proof -
  have z: "leNat (replicate n (CHR 0x00)) = 0" for n
    by (induction n) (simp_all add: uchar_def)
  have "replicate 16 (CHR 0x00) \<noteq> replicate 15 (CHR 0x00) @ [CHR 0x01]"
    by (simp add: numeral_eq_Suc)
  with genRandomString_unique [of "replicate 16 (CHR 0x00)" "replicate 15 (CHR 0x00) @ [CHR 0x01]"] z
  show ?thesis by simp
qed

text \<open>
  C30.  The text of a mail.  The header block is the list of the eleven
  headers in their fixed order, each as \<^verbatim>\<open>Name: value\<close>, with those of empty
  value left out; it is followed by an empty line, the parts, the closing
  boundary and a final empty line.  When no line holds a newline, cutting the
  file at newlines gives back the lines, and the lines before the first
  empty one are exactly the header block.
\<close>

theorem mail_file_structure:
  assumes "\<forall>l \<in> set (mailLines f b64 email ident). LF \<notin> set l"
  shows "split (strArray (mailLines f b64 email ident) [LF]) LF = mailLines f b64 email ident
       \<and> takeWhile (\<lambda>l. l \<noteq> []) (mailLines f b64 email ident)
           = headerLinesOf (headerPairs f email ident)
       \<and> (\<exists>parts. mailLines f b64 email ident
             = headerLinesOf (headerPairs f email ident) @ [] # parts @ [''--'' @ ident @ ''--'', []])"
proof -
  from mailLines_shape [of f b64 email ident] obtain parts where
    m: "mailLines f b64 email ident
          = headerLinesOf (headerPairs f email ident) @ [] # parts @ [''--'' @ ident @ ''--'', []]"
    unfolding mailHead_pairs by blast
  then have "mailLines f b64 email ident \<noteq> []" by simp
  note s = split_strArray [OF this assms]
  have "takeWhile (\<lambda>l. l \<noteq> [])
          (headerLinesOf (headerPairs f email ident) @ [] # parts @ [''--'' @ ident @ ''--'', []])
        = headerLinesOf (headerPairs f email ident)"
    by (rule takeWhile_head) (auto dest: headerLinesOf_nonempty)
  with s m show ?thesis by simp
qed

theorem mail_file_structure_witness:
  "strArray (mailLines fixedDate identityCoding plainMail ''B'') [LF] =
     ''Date: Wed, 15 Nov 1995 06:25:24 +0000'' @ [LF] @ ''To: bob@example.com, Cy <cy@example.com>'' @ [LF]
       @ ''From: Ann <ann@example.com>'' @ [LF] @ ''Subject: Hi'' @ [LF] @ ''References: <a@x> <b@x>'' @ [LF]
       @ ''Content-Type: multipart/alternative; boundary=B'' @ [LF] @ [LF]
       @ ''--B'' @ [LF] @ ''Content-Type: text/plain; charset=UTF-8'' @ [LF] @ [LF] @ ''hello'' @ [LF]
       @ ''--B--'' @ [LF]
   \<and> takeWhile (\<lambda>l. l \<noteq> []) (mailLines fixedDate identityCoding plainMail ''B'')
       = headerLinesOf (headerPairs fixedDate plainMail ''B'')"
proof -
  have "\<forall>l \<in> set (mailLines fixedDate identityCoding plainMail ''B''). LF \<notin> set l"
    by (simp add: mailLines_plainMail)
  from mail_file_structure [OF this] show ?thesis
    by (simp add: mailLines_plainMail)
qed

text \<open>
  Storing the mail is all or nothing for a reader of \<^verbatim>\<open>/var/mail/new\<close>.
  Whatever fails, the file of the mail's name in \<^verbatim>\<open>/var/mail/new\<close> is afterwards
  either what it was before or the whole text of the mail, and no file other
  than it and the temporary file is touched.  The call succeeds exactly when
  the temporary file did not exist and no system call failed; then the mail is
  in place and the temporary file is gone.  When \<^verbatim>\<open>write\<close> or \<^verbatim>\<open>rename\<close> fails
  the temporary file stays behind.
\<close>

theorem send_all_or_nothing:
  "(snd (send f b64 disk fs email r) = None \<longleftrightarrow>
      fs (''/var/mail/tmp/_'' @ genRandomString r) = None \<and> \<not> openFails disk
      \<and> writeStops disk = None \<and> \<not> renameFails disk)
   \<and> (snd (send f b64 disk fs email r) = None \<longrightarrow>
        fst (send f b64 disk fs email r) (''/var/mail/new/_'' @ genRandomString r)
          = Some (strArray (mailLines f b64 email (genRandomString r)) [LF])
        \<and> fst (send f b64 disk fs email r) (''/var/mail/tmp/_'' @ genRandomString r) = None)
   \<and> (fst (send f b64 disk fs email r) (''/var/mail/new/_'' @ genRandomString r)
          = fs (''/var/mail/new/_'' @ genRandomString r)
        \<or> fst (send f b64 disk fs email r) (''/var/mail/new/_'' @ genRandomString r)
          = Some (strArray (mailLines f b64 email (genRandomString r)) [LF]))
   \<and> (\<forall>p. p \<noteq> ''/var/mail/new/_'' @ genRandomString r
          \<and> p \<noteq> ''/var/mail/tmp/_'' @ genRandomString r \<longrightarrow>
          fst (send f b64 disk fs email r) p = fs p)
   \<and> (fs (''/var/mail/tmp/_'' @ genRandomString r) = None \<and> \<not> openFails disk
        \<and> snd (send f b64 disk fs email r) \<noteq> None \<longrightarrow>
        fst (send f b64 disk fs email r) (''/var/mail/tmp/_'' @ genRandomString r) \<noteq> None)"
  by (cases "writeStops disk")
    (simp_all add: send_def raiiOpen_def fdWrite_def renameFile_def Let_def)

theorem send_all_or_nothing_witness:
  "send fixedDate identityCoding goodDisk Map.empty plainMail (replicate 16 (CHR 0x00))
     = ([''/var/mail/new/_'' @ genRandomString (replicate 16 (CHR 0x00))
           \<mapsto> strArray (mailLines fixedDate identityCoding plainMail
                 (genRandomString (replicate 16 (CHR 0x00)))) [LF]], None)
   \<and> snd (send fixedDate identityCoding (goodDisk\<lparr>writeStops := Some 10\<rparr>) Map.empty plainMail
            (replicate 16 (CHR 0x00))) = Some (SyscallFailed ''write'')"
  using send_all_or_nothing [of fixedDate identityCoding goodDisk Map.empty plainMail
      "replicate 16 (CHR 0x00)"]
  by (simp add: send_def raiiOpen_def fdWrite_def renameFile_def Let_def goodDisk_def fun_eq_iff)

end
