(* ===== verification/Supervisor.thy ===== *)
theory Supervisor
  imports Session_Map
begin

text \<open>
  \<^verbatim>\<open>LegacyBridgeMain\<close> (lines 1697-1883), the supervisor: it reads the command
  line, forks, runs the application in the child, and in the parent waits
  until the application accepts a connection, then serves the host and the
  side socket until the application exits.

  The operating system is the environment of the model.  The outcome of
  \<^verbatim>\<open>fork\<close>, of each attempt to connect and of each \<^verbatim>\<open>waitpid\<close> is given from
  outside: the attempts and the calls of \<^verbatim>\<open>waitpid\<close> as functions of their
  number, since there may be any number of them.  The two loops that may run
  forever are partial functions into \<open>option\<close>, where \<open>None\<close> is a loop that
  never ends.  What happens in the parent between the calls is a step function
  over the events of the event loop.  \<^verbatim>\<open>kj::MainBuilder\<close>, the macros of
  \<^verbatim>\<open>wait(2)\<close>, \<^verbatim>\<open>strsignal\<close> and the text of an exception are outside the
  source; the first two are modelled from their documentation, the others
  are parameters.
\<close>

section \<open>The command line\<close>

datatype Validity = Valid | Invalid string

record 'a LegacyBridgeMain =
  address :: "'a option"
  command :: "string list"

definition newLegacyBridgeMain :: "'a LegacyBridgeMain" where
  "newLegacyBridgeMain = \<lparr>address = None, command = []\<rparr>"

definition setPort ::
  "(string \<Rightarrow> 'a option) \<Rightarrow> 'a LegacyBridgeMain \<Rightarrow> string \<Rightarrow> 'a LegacyBridgeMain \<times> Validity" where
  "setPort parseAddress m port =
     (case parseAddress (''127.0.0.1:'' @ port) of
        Some parsedAddr \<Rightarrow> (m\<lparr>address := Some parsedAddr\<rparr>, Valid)
      | None \<Rightarrow> (m, Invalid ''invalid port''))"

definition addCommandArg :: "'a LegacyBridgeMain \<Rightarrow> string \<Rightarrow> 'a LegacyBridgeMain \<times> Validity" where
  "addCommandArg m arg = (m\<lparr>command := command m @ [arg]\<rparr>, Valid)"

text \<open>
  \<^verbatim>\<open>kj::MainBuilder\<close> for positional arguments: the first goes to the handler
  of \<^verbatim>\<open><port>\<close>, every further one to the handler of \<^verbatim>\<open><command>\<close>, in order; a
  handler that refuses ends the parsing with its message, and a missing
  argument is reported by its title (the wording of that report is the
  library's).  Arguments that begin with a dash are options for the library
  and are not modelled.
\<close>

fun expectOneOrMoreArgs ::
  "('m \<Rightarrow> string \<Rightarrow> 'm \<times> Validity) \<Rightarrow> 'm \<Rightarrow> string list \<Rightarrow> 'm \<times> Validity" where
  "expectOneOrMoreArgs handler m [] = (m, Valid)"
| "expectOneOrMoreArgs handler m (arg # args) =
     (case handler m arg of
        (m1, Valid) \<Rightarrow> expectOneOrMoreArgs handler m1 args
      | (m1, Invalid msg) \<Rightarrow> (m1, Invalid msg))"

definition getMain ::
  "(string \<Rightarrow> 'a option) \<Rightarrow> string list \<Rightarrow> 'a LegacyBridgeMain \<times> Validity" where
  "getMain parseAddress args =
     (case args of
        [] \<Rightarrow> (newLegacyBridgeMain, Invalid ''missing argument <port>'')
      | port # rest \<Rightarrow>
          (case setPort parseAddress newLegacyBridgeMain port of
             (m, Invalid msg) \<Rightarrow> (m, Invalid msg)
           | (m, Valid) \<Rightarrow>
               if rest = [] then (m, Invalid ''missing argument <command>'')
               else expectOneOrMoreArgs addCommandArg m rest))"

section \<open>The child\<close>

datatype SysCall =
    CloseFd nat
  | Sigemptyset
  | Sigprocmask
  | SignalDefault nat
  | Execvp "string option" "string option list"

definition SIGPIPE :: nat where
  "SIGPIPE = 13"

fun checked :: "SysCall \<Rightarrow> bool" where
  "checked (CloseFd fd) = False"
| "checked c = True"

fun callName :: "SysCall \<Rightarrow> string" where
  "callName (CloseFd fd) = ''close''"
| "callName Sigemptyset = ''sigemptyset''"
| "callName Sigprocmask = ''sigprocmask''"
| "callName (SignalDefault n) = ''signal''"
| "callName (Execvp file argv) = ''execvp''"

text \<open>
  A sequence of system calls, each under \<^verbatim>\<open>KJ_SYSCALL\<close> unless it is not
  \<open>checked\<close>: the calls made, and the exception of the first checked call
  that fails.
\<close>

fun runCalls :: "(SysCall \<Rightarrow> bool) \<Rightarrow> SysCall list \<Rightarrow> SysCall list \<times> error option" where
  "runCalls fails [] = ([], None)"
| "runCalls fails (c # cs) =
     (if checked c \<and> fails c then ([c], Some (SyscallFailed (callName c)))
      else (case runCalls fails cs of (made, e) \<Rightarrow> (c # made, e)))"

definition childCalls :: "string list \<Rightarrow> SysCall list" where
  "childCalls cmd =
     (let argv = map Some cmd @ [None]
      in [CloseFd 3, Sigemptyset, Sigprocmask, SignalDefault SIGPIPE, Execvp (hd argv) argv])"

definition runChild :: "(SysCall \<Rightarrow> bool) \<Rightarrow> 'a LegacyBridgeMain \<Rightarrow> SysCall list \<times> error option" where
  "runChild fails m = runCalls fails (childCalls (command m))"

section \<open>The exit of the application\<close>

text \<open>The macros of \<^verbatim>\<open>wait(2)\<close> on a 32-bit status, as the C library defines them.\<close>

definition WTERMSIG :: "32 word \<Rightarrow> nat" where
  "WTERMSIG status = unat (and status 0x7f)"

definition WEXITSTATUS :: "32 word \<Rightarrow> nat" where
  "WEXITSTATUS status = unat (drop_bit 8 (and status 0xff00))"

definition WIFEXITED :: "32 word \<Rightarrow> bool" where
  "WIFEXITED status \<longleftrightarrow> WTERMSIG status = 0"

definition WIFSIGNALED :: "32 word \<Rightarrow> bool" where
  "WIFSIGNALED status \<longleftrightarrow>
     (let t = WTERMSIG status + 1;
          signedChar = (if t < 128 then int t else int t - 256)
      in signedChar div 2 > 0)"

definition exitMessage :: "(nat \<Rightarrow> string) \<Rightarrow> 32 word \<Rightarrow> string result" where
  "exitMessage strsignal status =
     (if \<not> (WIFEXITED status \<or> WIFSIGNALED status) then Inl (BadWaitStatus (unat status))
      else if WIFSIGNALED status
      then Inr (''** HTTP-BRIDGE: App server exited due to signal '' @ strNat (WTERMSIG status)
                @ '' ('' @ strsignal (WTERMSIG status) @ '').'')
      else Inr (''** HTTP-BRIDGE: App server exited with status code: ''
                @ strNat (WEXITSTATUS status)))"

definition exitDiagnostic :: "(nat \<Rightarrow> string) \<Rightarrow> (error \<Rightarrow> string) \<Rightarrow> 32 word result \<Rightarrow> string" where
  "exitDiagnostic strsignal describe waited =
     (case rbind waited (exitMessage strsignal) of
        Inr msg \<Rightarrow> msg
      | Inl e \<Rightarrow> ''** HTTP-BRIDGE: Uncaught exception waiting for child process:'' @ [LF] @ describe e)"

datatype WaitResult = Running | Reaped "32 word" | WaitFailed

text \<open>
  \<^verbatim>\<open>onChildExit\<close>: \<open>waitpid i\<close> is what the call returns after \<open>i\<close> signals
  \<^verbatim>\<open>SIGCHLD\<close>.  The function may wait forever.
\<close>

partial_function (option) onChildExit :: "(nat \<Rightarrow> WaitResult) \<Rightarrow> nat \<Rightarrow> 32 word result option" where
  "onChildExit waitpid i =
     (case waitpid i of
        WaitFailed \<Rightarrow> Some (Inl (SyscallFailed ''waitpid''))
      | Running \<Rightarrow> onChildExit waitpid (Suc i)
      | Reaped status \<Rightarrow> Some (Inr status))"

section \<open>Waiting for the application\<close>

text \<open>
  The loop of \<^verbatim>\<open>run\<close> that connects to the application: \<open>connects i\<close> says
  whether attempt \<open>i\<close> succeeds.  The result is the number of attempts that
  failed, each followed by a sleep of 10 ms.
\<close>

partial_function (option) awaitConnect :: "(nat \<Rightarrow> bool) \<Rightarrow> nat \<Rightarrow> nat option" where
  "awaitConnect connects i =
     (if connects i then Some i else awaitConnect connects (Suc i))"

definition sleptMicroseconds :: "nat \<Rightarrow> nat" where
  "sleptMicroseconds failed = 10000 * failed"

section \<open>The parent\<close>

text \<open>
  The side socket: every connection accepted gets a server of its own for
  the one bridge capability and becomes a task that lasts until the
  connection ends.
\<close>

fun acceptLoop :: "'k list \<Rightarrow> 'k list \<Rightarrow> 'k list" where
  "acceptLoop [] taskSet = taskSet"
| "acceptLoop (connection # rest) taskSet = acceptLoop rest (taskSet @ [connection])"

text \<open>
  The phases of the parent and the events of its event loop.  In \<open>Connecting n\<close>
  the loop has failed \<open>n\<close> times; \<open>Serving\<close> holds the session factory and the
  connections of the side socket; \<open>Exited\<close> is \<^verbatim>\<open>context.exitError\<close> with its
  message; \<open>Threw\<close> is an exception that leaves \<^verbatim>\<open>run\<close>.
\<close>

datatype ('c, 'k) Phase =
    Connecting nat
  | Serving "'c UiViewImpl" "'k list"
  | Exited string
  | Threw error

datatype ('c, 'k) Event =
    ConnectRefused
  | ConnectAccepted
  | HostCall "'c BridgeCall"
  | SideAccept 'k
  | SideDisconnect 'k
  | ChildExit "32 word result"

record World =
  strsignal :: "nat \<Rightarrow> string"
  describe :: "error \<Rightarrow> string"
  inet_ntop6 :: "nat list \<Rightarrow> string"
  configFile :: "BridgeConfig option"

fun final :: "('c, 'k) Phase \<Rightarrow> bool" where
  "final (Exited msg) = True"
| "final (Threw e) = True"
| "final p = False"

fun parentStep :: "World \<Rightarrow> ('c, 'k) Event \<Rightarrow> ('c, 'k) Phase \<Rightarrow> ('c, 'k) Phase option" where
  "parentStep w (ChildExit waited) p =
     (if final p then None else Some (Exited (exitDiagnostic (strsignal w) (describe w) waited)))"
| "parentStep w ConnectRefused (Connecting n) = Some (Connecting (Suc n))"
| "parentStep w ConnectAccepted (Connecting n) =
     (case configFile w of
        None \<Rightarrow> Some (Threw (SyscallFailed ''/sandstorm-http-bridge-config''))
      | Some cfg \<Rightarrow> Some (Serving (newUiView cfg) []))"
| "parentStep w (HostCall c) (Serving v tasks) = Some (Serving (step (inet_ntop6 w) c v) tasks)"
| "parentStep w (SideAccept k) (Serving v tasks) = Some (Serving v (acceptLoop [k] tasks))"
| "parentStep w (SideDisconnect k) (Serving v tasks) = Some (Serving v (removeAll k tasks))"
| "parentStep w e p = None"

datatype ForkResult = ForkFailed | InChild | InParent

datatype ('c, 'k) Process =
    ChildProcess "SysCall list" "error option"
  | ParentProcess "('c, 'k) Phase"

definition run ::
  "ForkResult \<Rightarrow> (SysCall \<Rightarrow> bool) \<Rightarrow> WaitResult \<Rightarrow> 'a LegacyBridgeMain \<Rightarrow> ('c, 'k) Process result" where
  "run forked fails firstWait m =
     (case forked of
        ForkFailed \<Rightarrow> Inl (SyscallFailed ''fork'')
      | InChild \<Rightarrow> (case runChild fails m of (made, e) \<Rightarrow> Inr (ChildProcess made e))
      | InParent \<Rightarrow>
          (case firstWait of
             WaitFailed \<Rightarrow> Inl (SyscallFailed ''waitpid'')
           | other \<Rightarrow> Inr (ParentProcess (Connecting 0))))"

section \<open>Specification\<close>

text \<open>The runs of the parent.\<close>

inductive parentReaches :: "World \<Rightarrow> ('c, 'k) Phase \<Rightarrow> bool" for w where
  start: "parentReaches w (Connecting 0)"
| event: "parentReaches w p \<Longrightarrow> parentStep w e p = Some p' \<Longrightarrow> parentReaches w p'"

fun events :: "World \<Rightarrow> ('c, 'k) Event list \<Rightarrow> ('c, 'k) Phase \<Rightarrow> ('c, 'k) Phase option" where
  "events w [] p = Some p"
| "events w (e # es) p = (case parentStep w e p of None \<Rightarrow> None | Some p' \<Rightarrow> events w es p')"

definition firstTrue :: "(nat \<Rightarrow> bool) \<Rightarrow> nat \<Rightarrow> bool" where
  "firstTrue P k \<longleftrightarrow> P k \<and> (\<forall>i < k. \<not> P i)"

definition waited :: "WaitResult \<Rightarrow> 32 word result" where
  "waited r = (case r of Reaped status \<Rightarrow> Inr status | other \<Rightarrow> Inl (SyscallFailed ''waitpid''))"

definition phaseInv :: "World \<Rightarrow> ('c, 'k) Phase \<Rightarrow> bool" where
  "phaseInv w p =
     (case p of
        Connecting n \<Rightarrow> True
      | Serving v tasks \<Rightarrow>
          (\<exists>cfg n. configFile w = Some cfg \<and> reachableIn (inet_ntop6 w) cfg n v)
      | Exited msg \<Rightarrow> startsWith msg ''** HTTP-BRIDGE: ''
      | Threw e \<Rightarrow> configFile w = None \<and> e = SyscallFailed ''/sandstorm-http-bridge-config'')"

definition demoWorld :: World where
  "demoWorld = \<lparr>strsignal = (\<lambda>n. ''signal''), describe = (\<lambda>e. ''exception''),
                inet_ntop6 = bytesText, configFile = Some demoConfig\<rparr>"

section \<open>The command line: lemmas\<close>

lemma expectOneOrMoreArgs_addCommandArg:
  "expectOneOrMoreArgs addCommandArg m args = (m\<lparr>command := command m @ args\<rparr>, Valid)"
  by (induction args arbitrary: m) (simp_all add: addCommandArg_def)

lemma getMain_valid_iff:
  "getMain parseAddress args = (m, Valid) \<longleftrightarrow>
     (\<exists>port cmd a. args = port # cmd \<and> cmd \<noteq> []
        \<and> parseAddress (''127.0.0.1:'' @ port) = Some a
        \<and> m = \<lparr>address = Some a, command = cmd\<rparr>)"
  by (auto simp: getMain_def setPort_def newLegacyBridgeMain_def expectOneOrMoreArgs_addCommandArg
      split: list.splits option.splits)

lemma getMain_invalid_port:
  "parseAddress (''127.0.0.1:'' @ port) = None
   \<Longrightarrow> snd (getMain parseAddress (port # cmd)) = Invalid ''invalid port''"
  by (simp add: getMain_def setPort_def)

section \<open>The child: lemmas\<close>

lemma runCalls_ok_iff:
  "snd (runCalls fails cs) = None \<longleftrightarrow> (\<forall>c \<in> set cs. checked c \<longrightarrow> \<not> fails c)"
  by (induction cs) (auto split: prod.splits)

lemma runCalls_ok_made: "snd (runCalls fails cs) = None \<Longrightarrow> fst (runCalls fails cs) = cs"
  by (induction cs) (auto split: prod.splits if_splits)

lemma runCalls_made_prefix: "\<exists>n. fst (runCalls fails cs) = take n cs"
proof (induction cs)
  case Nil
  show ?case by simp
next
  case (Cons c cs)
  then obtain n where n: "fst (runCalls fails cs) = take n cs" by blast
  show ?case
  proof (cases "checked c \<and> fails c")
    case True
    then have "fst (runCalls fails (c # cs)) = take 1 (c # cs)" by simp
    then show ?thesis by blast
  next
    case False
    with n have "fst (runCalls fails (c # cs)) = take (Suc n) (c # cs)"
      by (cases "runCalls fails cs") auto
    then show ?thesis by blast
  qed
qed

lemma runChild_exec:
  assumes "command m = file # args"
  shows "snd (runChild fails m) = None \<longleftrightarrow>
           \<not> fails Sigemptyset \<and> \<not> fails Sigprocmask \<and> \<not> fails (SignalDefault SIGPIPE)
           \<and> \<not> fails (Execvp (Some file) (map Some (file # args) @ [None]))"
    and "snd (runChild fails m) = None \<Longrightarrow>
           last (fst (runChild fails m)) = Execvp (Some file) (map Some (file # args) @ [None])"
proof -
  show "snd (runChild fails m) = None \<longleftrightarrow>
           \<not> fails Sigemptyset \<and> \<not> fails Sigprocmask \<and> \<not> fails (SignalDefault SIGPIPE)
           \<and> \<not> fails (Execvp (Some file) (map Some (file # args) @ [None]))"
    using assms by (simp add: runChild_def runCalls_ok_iff childCalls_def)
  assume "snd (runChild fails m) = None"
  then have "fst (runChild fails m) = childCalls (command m)"
    by (simp add: runChild_def runCalls_ok_made)
  with assms show "last (fst (runChild fails m))
      = Execvp (Some file) (map Some (file # args) @ [None])"
    by (simp add: childCalls_def)
qed

section \<open>The status of the child: lemmas\<close>

lemma WTERMSIG_mod: "WTERMSIG status = unat status mod 128"
proof -
  have "(0x7f :: 32 word) = mask 7" by (simp add: mask_eq_exp_minus_1)
  then have "and status 0x7f = take_bit 7 status" by (simp add: take_bit_eq_mask)
  then show ?thesis by (simp add: WTERMSIG_def take_bit_eq_mod unat_mod)
qed

lemma WTERMSIG_less: "WTERMSIG status < 128"
  by (simp add: WTERMSIG_mod)

lemma signed_char_positive:
  fixes t :: nat
  assumes "t < 128"
  shows "(if t + 1 < 128 then int (t + 1) else int (t + 1) - 256) div 2 > 0 \<longleftrightarrow> 1 \<le> t \<and> t \<le> 126"
  using assms by (cases "t + 1 < 128") auto

lemma WIFSIGNALED_iff: "WIFSIGNALED status \<longleftrightarrow> 1 \<le> WTERMSIG status \<and> WTERMSIG status \<le> 126"
  unfolding WIFSIGNALED_def Let_def by (rule signed_char_positive [OF WTERMSIG_less])

lemma WEXITSTATUS_mod: "WEXITSTATUS status = unat status div 256 mod 256"
proof -
  have "drop_bit 8 (and status 0xff00) = take_bit 8 (drop_bit 8 status)"
  proof -
    have h: "(0xff00 :: 32 word) = push_bit 8 (mask 8)" by (simp add: mask_eq_exp_minus_1)
    show ?thesis unfolding h by (rule bit_eqI) (auto simp: bit_simps)
  qed
  then show ?thesis
    by (simp add: WEXITSTATUS_def take_bit_eq_mod drop_bit_eq_div unat_mod unat_div)
qed

lemma exit_status_cases:
  "WIFEXITED status \<and> \<not> WIFSIGNALED status \<and> WTERMSIG status = 0
   \<or> WIFSIGNALED status \<and> \<not> WIFEXITED status \<and> 1 \<le> WTERMSIG status \<and> WTERMSIG status \<le> 126
   \<or> \<not> WIFEXITED status \<and> \<not> WIFSIGNALED status \<and> WTERMSIG status = 127"
  using WTERMSIG_less [of status] by (auto simp: WIFSIGNALED_iff WIFEXITED_def)

lemma exitMessage_exited:
  "WTERMSIG status = 0 \<Longrightarrow>
     exitMessage f status
       = Inr (''** HTTP-BRIDGE: App server exited with status code: '' @ strNat (WEXITSTATUS status))"
  by (simp add: exitMessage_def WIFSIGNALED_iff WIFEXITED_def)

lemma exitMessage_signaled:
  "1 \<le> WTERMSIG status \<Longrightarrow> WTERMSIG status \<le> 126 \<Longrightarrow>
     exitMessage f status
       = Inr (''** HTTP-BRIDGE: App server exited due to signal '' @ strNat (WTERMSIG status)
              @ '' ('' @ f (WTERMSIG status) @ '').'')"
  by (simp add: exitMessage_def WIFSIGNALED_iff WIFEXITED_def)

lemma exitMessage_stopped:
  "WTERMSIG status = 127 \<Longrightarrow> exitMessage f status = Inl (BadWaitStatus (unat status))"
  by (simp add: exitMessage_def WIFSIGNALED_iff WIFEXITED_def)

lemma exitMessage_prefix:
  "exitMessage f status = Inr msg \<Longrightarrow> startsWith msg ''** HTTP-BRIDGE: App server exited ''"
  by (auto simp: exitMessage_def startsWith_iff split: if_splits)

lemma exitDiagnostic_prefix: "startsWith (exitDiagnostic f d r) ''** HTTP-BRIDGE: ''"
  by (auto simp: exitDiagnostic_def exitMessage_def rbind_def startsWith_iff
      split: sum.splits if_splits)

section \<open>The loops\<close>

lemma firstTrue_ex: "P k \<Longrightarrow> \<exists>n. firstTrue P n"
  unfolding firstTrue_def using exists_least_iff [of P] by blast

lemma awaitConnect_first:
  "connects (i + k) \<Longrightarrow> (\<And>j. j < k \<Longrightarrow> \<not> connects (i + j))
   \<Longrightarrow> awaitConnect connects i = Some (i + k)"
proof (induction k arbitrary: i)
  case 0
  then show ?case by (subst awaitConnect.simps) simp
next
  case (Suc k)
  from Suc.prems(2) [of 0] have "\<not> connects i" by simp
  moreover have "awaitConnect connects (Suc i) = Some (Suc i + k)"
  proof (rule Suc.IH)
    show "connects (Suc i + k)" using Suc.prems(1) by simp
    show "\<not> connects (Suc i + j)" if "j < k" for j
      using Suc.prems(2) [of "Suc j"] that by simp
  qed
  ultimately show ?case by (subst awaitConnect.simps) simp
qed

lemma awaitConnect_Some:
  assumes "awaitConnect connects i = Some n"
  shows "i \<le> n \<and> connects n \<and> (\<forall>j. i \<le> j \<and> j < n \<longrightarrow> \<not> connects j)"
proof (rule awaitConnect.raw_induct
    [where P = "\<lambda>c i n. i \<le> n \<and> c n \<and> (\<forall>j. i \<le> j \<and> j < n \<longrightarrow> \<not> c j)", OF _ assms])
  fix f c i n
  assume IH: "\<And>c i n. f c i = Some n \<Longrightarrow> i \<le> n \<and> c n \<and> (\<forall>j. i \<le> j \<and> j < n \<longrightarrow> \<not> c j)"
    and eq: "(if c i then Some i else f c (Suc i)) = Some n"
  show "i \<le> n \<and> c n \<and> (\<forall>j. i \<le> j \<and> j < n \<longrightarrow> \<not> c j)"
  proof (cases "c i")
    case True
    with eq show ?thesis by auto
  next
    case False
    with eq have "f c (Suc i) = Some n" by simp
    from IH [OF this] have n: "Suc i \<le> n" "c n" and r: "\<And>j. Suc i \<le> j \<Longrightarrow> j < n \<Longrightarrow> \<not> c j"
      by auto
    have "\<not> c j" if "i \<le> j" "j < n" for j
      using that False r [of j] by (cases "j = i") auto
    with n show ?thesis by auto
  qed
qed

lemma awaitConnect_Some_iff: "awaitConnect connects 0 = Some n \<longleftrightarrow> firstTrue connects n"
proof
  assume "awaitConnect connects 0 = Some n"
  from awaitConnect_Some [OF this] show "firstTrue connects n" by (simp add: firstTrue_def)
next
  assume f: "firstTrue connects n"
  have "awaitConnect connects 0 = Some (0 + n)"
  proof (rule awaitConnect_first)
    show "connects (0 + n)" using f by (simp add: firstTrue_def)
    show "\<not> connects (0 + j)" if "j < n" for j using f that by (simp add: firstTrue_def)
  qed
  then show "awaitConnect connects 0 = Some n" by simp
qed

lemma awaitConnect_None_iff: "awaitConnect connects 0 = None \<longleftrightarrow> (\<forall>k. \<not> connects k)"
proof
  assume n: "awaitConnect connects 0 = None"
  show "\<forall>k. \<not> connects k"
  proof (rule ccontr)
    assume "\<not> (\<forall>k. \<not> connects k)"
    then obtain k where "connects k" by blast
    from firstTrue_ex [of connects, OF this] obtain m where "firstTrue connects m" ..
    then have "awaitConnect connects 0 = Some m" by (rule awaitConnect_Some_iff [THEN iffD2])
    with n show False by simp
  qed
next
  assume a: "\<forall>k. \<not> connects k"
  show "awaitConnect connects 0 = None"
  proof (cases "awaitConnect connects 0")
    case None
    then show ?thesis .
  next
    case (Some m)
    from awaitConnect_Some [OF this] a show ?thesis by blast
  qed
qed

lemma waited_simps [simp]:
  "waited (Reaped status) = Inr status"
  "waited WaitFailed = Inl (SyscallFailed ''waitpid'')"
  by (simp_all add: waited_def)

lemma onChildExit_first:
  "waitpid (i + k) \<noteq> Running \<Longrightarrow> (\<And>j. j < k \<Longrightarrow> waitpid (i + j) = Running)
   \<Longrightarrow> onChildExit waitpid i = Some (waited (waitpid (i + k)))"
proof (induction k arbitrary: i)
  case 0
  then show ?case by (subst onChildExit.simps) (simp split: WaitResult.splits)
next
  case (Suc k)
  from Suc.prems(2) [of 0] have "waitpid i = Running" by simp
  moreover have "onChildExit waitpid (Suc i) = Some (waited (waitpid (Suc i + k)))"
  proof (rule Suc.IH)
    show "waitpid (Suc i + k) \<noteq> Running" using Suc.prems(1) by simp
    show "waitpid (Suc i + j) = Running" if "j < k" for j
      using Suc.prems(2) [of "Suc j"] that by simp
  qed
  ultimately show ?case by (subst onChildExit.simps) simp
qed

lemma onChildExit_Some:
  assumes "onChildExit waitpid i = Some r"
  shows "\<exists>n \<ge> i. waitpid n \<noteq> Running \<and> (\<forall>j. i \<le> j \<and> j < n \<longrightarrow> waitpid j = Running)
           \<and> r = waited (waitpid n)"
proof (rule onChildExit.raw_induct
    [where P = "\<lambda>w i r. \<exists>n \<ge> i. w n \<noteq> Running \<and> (\<forall>j. i \<le> j \<and> j < n \<longrightarrow> w j = Running)
                  \<and> r = waited (w n)", OF _ assms])
  fix f w i r
  assume IH: "\<And>w i r. f w i = Some r \<Longrightarrow>
      \<exists>n \<ge> i. w n \<noteq> Running \<and> (\<forall>j. i \<le> j \<and> j < n \<longrightarrow> w j = Running) \<and> r = waited (w n)"
    and eq: "(case w i of Running \<Rightarrow> f w (Suc i) | Reaped status \<Rightarrow> Some (Inr status)
              | WaitFailed \<Rightarrow> Some (Inl (SyscallFailed ''waitpid''))) = Some r"
  show "\<exists>n \<ge> i. w n \<noteq> Running \<and> (\<forall>j. i \<le> j \<and> j < n \<longrightarrow> w j = Running) \<and> r = waited (w n)"
  proof (cases "w i = Running")
    case False
    with eq have "r = waited (w i)" by (cases "w i") auto
    with False show ?thesis by (intro exI [of _ i]) auto
  next
    case True
    with eq have "f w (Suc i) = Some r" by simp
    from IH [OF this] obtain n where n: "Suc i \<le> n" "w n \<noteq> Running" "r = waited (w n)"
      and r: "\<And>j. Suc i \<le> j \<Longrightarrow> j < n \<Longrightarrow> w j = Running" by blast
    have "w j = Running" if "i \<le> j" "j < n" for j
      using that True r [of j] by (cases "j = i") auto
    with n show ?thesis by (intro exI [of _ n]) auto
  qed
qed

lemma onChildExit_Some_iff:
  "onChildExit waitpid 0 = Some r \<longleftrightarrow>
     (\<exists>k. firstTrue (\<lambda>i. waitpid i \<noteq> Running) k \<and> r = waited (waitpid k))"
proof
  assume "onChildExit waitpid 0 = Some r"
  from onChildExit_Some [OF this]
  show "\<exists>k. firstTrue (\<lambda>i. waitpid i \<noteq> Running) k \<and> r = waited (waitpid k)"
    by (auto simp: firstTrue_def)
next
  assume "\<exists>k. firstTrue (\<lambda>i. waitpid i \<noteq> Running) k \<and> r = waited (waitpid k)"
  then obtain k where f: "waitpid k \<noteq> Running" "\<And>j. j < k \<Longrightarrow> waitpid j = Running"
    and r: "r = waited (waitpid k)" by (auto simp: firstTrue_def)
  have "onChildExit waitpid 0 = Some (waited (waitpid (0 + k)))"
  proof (rule onChildExit_first)
    show "waitpid (0 + k) \<noteq> Running" using f(1) by simp
    show "waitpid (0 + j) = Running" if "j < k" for j using f(2) [OF that] by simp
  qed
  with r show "onChildExit waitpid 0 = Some r" by simp
qed

lemma onChildExit_None_iff: "onChildExit waitpid 0 = None \<longleftrightarrow> (\<forall>k. waitpid k = Running)"
proof
  assume n: "onChildExit waitpid 0 = None"
  show "\<forall>k. waitpid k = Running"
  proof (rule ccontr)
    assume "\<not> (\<forall>k. waitpid k = Running)"
    then obtain k where "waitpid k \<noteq> Running" by blast
    from firstTrue_ex [of "\<lambda>i. waitpid i \<noteq> Running", OF this]
    obtain m where "firstTrue (\<lambda>i. waitpid i \<noteq> Running) m" ..
    then have "onChildExit waitpid 0 = Some (waited (waitpid m))"
      unfolding onChildExit_Some_iff by blast
    with n show False by simp
  qed
next
  assume a: "\<forall>k. waitpid k = Running"
  show "onChildExit waitpid 0 = None"
  proof (cases "onChildExit waitpid 0")
    case None
    then show ?thesis .
  next
    case (Some r)
    from onChildExit_Some [OF this] a show ?thesis by blast
  qed
qed

section \<open>The phases of the parent\<close>

lemma final_stuck: "final p \<Longrightarrow> parentStep w e p = None"
  by (cases p; cases e) simp_all

lemma parentStep_ChildExit:
  "\<not> final p \<Longrightarrow>
     parentStep w (ChildExit r) p = Some (Exited (exitDiagnostic (strsignal w) (describe w) r))"
  by simp

lemma parentStep_phaseInv:
  assumes "phaseInv w p" and "parentStep w e p = Some p'"
  shows "phaseInv w p'"
proof (cases e)
  case (ChildExit r)
  with assms(2) show ?thesis
    by (auto simp: phaseInv_def exitDiagnostic_prefix split: if_splits)
next
  case ConnectRefused
  with assms(2) show ?thesis by (cases p) (auto simp: phaseInv_def)
next
  case ConnectAccepted
  with assms(2) show ?thesis
    by (cases p) (auto simp: phaseInv_def intro!: exI reachableIn.init split: option.splits)
next
  case (HostCall c)
  show ?thesis
  proof (cases p)
    case (Serving v tasks)
    with assms(1) obtain cfg n where c: "configFile w = Some cfg"
      and r: "reachableIn (inet_ntop6 w) cfg n v" by (auto simp: phaseInv_def)
    from reachableIn.after [OF r, of c] c assms(2) HostCall Serving show ?thesis
      by (auto simp: phaseInv_def simp del: step.simps)
  qed (use assms(2) HostCall in auto)
next
  case (SideAccept k)
  with assms show ?thesis by (cases p) (auto simp: phaseInv_def)
next
  case (SideDisconnect k)
  with assms show ?thesis by (cases p) (auto simp: phaseInv_def)
qed

lemma parentReaches_phaseInv: "parentReaches w p \<Longrightarrow> phaseInv w p"
proof (induction rule: parentReaches.induct)
  case start
  show ?case by (simp add: phaseInv_def)
next
  case (event p e p')
  then show ?case by (blast intro: parentStep_phaseInv)
qed

lemma events_parentReaches:
  "parentReaches w p \<Longrightarrow> events w es p = Some p' \<Longrightarrow> parentReaches w p'"
proof (induction es arbitrary: p)
  case Nil
  then show ?case by simp
next
  case (Cons e es)
  then show ?case by (auto split: option.splits intro: parentReaches.event)
qed

lemma acceptLoop_append: "acceptLoop ks taskSet = taskSet @ ks"
  by (induction ks arbitrary: taskSet) simp_all

text \<open>The loop of \<^verbatim>\<open>run\<close> as events of the parent.\<close>

lemma refused_events:
  "events w (replicate n ConnectRefused @ es) (Connecting m) = events w es (Connecting (m + n))"
  by (induction n arbitrary: m) simp_all

lemma awaitConnect_events:
  assumes "awaitConnect connects 0 = Some n" and "configFile w = Some cfg"
  shows "events w (map (\<lambda>i. if connects i then ConnectAccepted else ConnectRefused) [0..<Suc n])
           (Connecting 0) = Some (Serving (newUiView cfg) [])"
proof -
  from awaitConnect_Some [OF assms(1)] have c: "connects n" "\<And>j. j < n \<Longrightarrow> \<not> connects j"
    by auto
  then have "map (\<lambda>i. if connects i then ConnectAccepted else ConnectRefused) [0..<n]
      = replicate n ConnectRefused"
    by (intro nth_equalityI) simp_all
  with c(1) have m: "map (\<lambda>i. if connects i then ConnectAccepted else ConnectRefused) [0..<Suc n]
      = replicate n ConnectRefused @ [ConnectAccepted]"
    by simp
  show ?thesis
    unfolding m refused_events using assms(2) by simp
qed

section \<open>Properties\<close>

text \<open>
  C39.  The wait for the application ends exactly when the application accepts
  a connection.  The loop of \<^verbatim>\<open>run\<close> returns if and only if some attempt to
  connect succeeds; it then returns at the first attempt that succeeds, after
  one sleep of 10 ms for each attempt that failed before it.  When no attempt
  ever succeeds the loop never returns: the host's calls are never served, and
  only the exit of the application (\<open>parentStep\<close> on \<open>ChildExit\<close>) ends the bridge.
\<close>

theorem awaitConnect_returns:
  "((\<exists>n. awaitConnect connects 0 = Some n) \<longleftrightarrow> (\<exists>k. connects k))
   \<and> (awaitConnect connects 0 = Some n \<longleftrightarrow> firstTrue connects n)
   \<and> (awaitConnect connects 0 = None \<longleftrightarrow> (\<forall>k. \<not> connects k))"
proof -
  have "(\<exists>n. awaitConnect connects 0 = Some n) \<longleftrightarrow> awaitConnect connects 0 \<noteq> None" by simp
  then show ?thesis by (simp add: awaitConnect_Some_iff awaitConnect_None_iff)
qed

theorem awaitConnect_returns_witness:
  "awaitConnect (\<lambda>i. 3 \<le> i) 0 = Some 3 \<and> sleptMicroseconds 3 = 30000
   \<and> awaitConnect (\<lambda>i. False) 0 = None"
  using awaitConnect_returns [of "\<lambda>i. 3 \<le> i" 3] awaitConnect_returns [of "\<lambda>i. False"]
  by (simp add: firstTrue_def sleptMicroseconds_def)

text \<open>
  Once the loop has returned and the configuration has been read, the parent
  serves: the host's calls go to a session factory that starts without any
  session, so every state of the factory is one of the reachable states of
  \<open>Session_Map\<close>.
\<close>

theorem parent_serves_reachable_view:
  assumes "parentReaches w (Serving v tasks)"
  shows "\<exists>cfg n. configFile w = Some cfg \<and> reachableIn (inet_ntop6 w) cfg n v"
  using parentReaches_phaseInv [OF assms] by (simp add: phaseInv_def)

text \<open>
  The exit of the application ends the bridge.  When the application is
  reaped at the \<open>k\<close>-th call of \<^verbatim>\<open>waitpid\<close>, \<^verbatim>\<open>onChildExit\<close> returns; whatever
  the parent is doing then, the event ends it with a diagnostic that begins
  with the name of the bridge, and no event is accepted after that.  The
  diagnostic names the exit code of an application that exited and the signal
  of one that was killed.
\<close>

theorem child_exit_ends_bridge:
  assumes "firstTrue (\<lambda>i. waitpid i \<noteq> Running) k" and "\<not> final p"
  shows "onChildExit waitpid 0 = Some (waited (waitpid k))
       \<and> (\<exists>msg. parentStep w (ChildExit (waited (waitpid k))) p = Some (Exited msg)
              \<and> startsWith msg ''** HTTP-BRIDGE: ''
              \<and> (\<forall>e. parentStep w e (Exited msg) = None)
              \<and> (\<forall>status. waitpid k = Reaped status \<and> WTERMSIG status = 0 \<longrightarrow>
                    msg = ''** HTTP-BRIDGE: App server exited with status code: ''
                          @ strNat (WEXITSTATUS status)))"
proof -
  from assms(1) have "onChildExit waitpid 0 = Some (waited (waitpid k))"
    unfolding onChildExit_Some_iff by blast
  moreover have "parentStep w (ChildExit (waited (waitpid k))) p
      = Some (Exited (exitDiagnostic (strsignal w) (describe w) (waited (waitpid k))))"
    using assms(2) by (rule parentStep_ChildExit)
  moreover have "exitDiagnostic (strsignal w) (describe w) (waited (waitpid k))
      = ''** HTTP-BRIDGE: App server exited with status code: '' @ strNat (WEXITSTATUS status)"
    if "waitpid k = Reaped status" "WTERMSIG status = 0" for status
    using that by (simp add: exitDiagnostic_def rbind_def exitMessage_exited)
  ultimately show ?thesis
    by (simp add: exitDiagnostic_prefix final_stuck)
qed

theorem child_exit_ends_bridge_witness:
  "onChildExit (\<lambda>i. if i < 2 then Running else Reaped 0x300) 0 = Some (Inr 0x300)
   \<and> parentStep demoWorld (ChildExit (Inr 0x300)) (Connecting 5 :: (nat, nat) Phase)
       = Some (Exited ''** HTTP-BRIDGE: App server exited with status code: 3'')"
proof -
  have f: "firstTrue (\<lambda>i. (if i < 2 then Running else Reaped 0x300) \<noteq> Running) 2"
    by (simp add: firstTrue_def)
  have s: "WTERMSIG 0x300 = 0" "WEXITSTATUS 0x300 = 3"
    by (simp_all add: WTERMSIG_mod WEXITSTATUS_mod)
  have n: "\<not> final (Connecting 5 :: (nat, nat) Phase)" by simp
  from child_exit_ends_bridge [OF f n, of demoWorld]
  obtain msg where "onChildExit (\<lambda>i. if i < 2 then Running else Reaped 0x300) 0 = Some (Inr 0x300)"
    and "parentStep demoWorld (ChildExit (Inr 0x300)) (Connecting 5 :: (nat, nat) Phase)
           = Some (Exited msg)"
    and "WTERMSIG 0x300 = 0 \<longrightarrow>
           msg = ''** HTTP-BRIDGE: App server exited with status code: '' @ strNat (WEXITSTATUS 0x300)"
    by auto
  with s show ?thesis by simp
qed

end
