(* ===== verification/Spec2Isabelle.thy ===== *)
theory Spec2Isabelle
  imports Bridge_Prelude Status_Table Encoding ETag Http_Date Cookie Http_Parser Response_Build
    Request_Stream WebSocket_Pump Web_Session Session_Map Mail_Sink Supervisor
begin

text \<open>
  \<^bold>\<open>A verification development for the Sandstorm HTTP bridge\<close>
  (\<^verbatim>\<open>src/src/sandstorm/sandstorm-http-bridge.c++\<close>).

  The program runs inside an application sandbox.  The host sends it typed
  capability calls (a web session's \<^verbatim>\<open>get\<close>, \<^verbatim>\<open>post\<close>, \<^verbatim>\<open>openWebSocket\<close>, ...);
  for each call it writes an HTTP/1.1 request to the application over a fresh
  loopback connection, parses the response with the joyent \<^verbatim>\<open>http_parser\<close>
  library through callbacks, and fills the typed result.  The whole program is
  one source file; its classes are the components below.

  \<^bold>\<open>Theories and what they model.\<close>

  \<^item> \<open>Bridge_Prelude\<close>: the \<open>error\<close> datatype (one constructor per raise
    site of the source), the result type \<open>error + 'a\<close>, signed and unsigned
    reading of a C character, and the string helpers the source calls from
    \<^verbatim>\<open>util.h\<close> and KJ (\<open>split\<close>, \<open>splitFirst\<close>, \<open>trim\<close>, \<open>toLower\<close>,
    \<open>strArray\<close>, \<open>strNat\<close>, \<open>hexNat\<close>, \<open>hexEncode\<close>), with the lemmas the
    components share (split/join round trip, trimming is idempotent, joining
    of lines, reading of 64-bit counters).  These helpers are outside the
    source file and are modelled from their documented behaviour.
  \<^item> \<open>Status_Table\<close>: \<^verbatim>\<open>HttpStatusInfo\<close>, \<^verbatim>\<open>makeStatusCodes\<close> and the look-up
    of \<^verbatim>\<open>HttpParser::build\<close>.  The compiled schema is a parameter.  Lemmas:
    the table built equals the abstract table \<open>tableOf\<close> of the schema (a
    functional refinement), it is built exactly when every enumerant is
    annotated, and the look-up on each branch.
  \<^item> \<open>Encoding\<close>: \<^verbatim>\<open>percentEncode\<close> and \<^verbatim>\<open>toBytes\<close>, with reference decoders;
    the encoding is injective and its output cannot break a header line.
  \<^item> \<open>ETag\<close>: \<^verbatim>\<open>HttpParser::parseETag\<close> and the writer of the ETag
    preconditions in \<^verbatim>\<open>addCommonHeaders\<close>; round trips in both directions and
    the tags on which they differ.
  \<^item> \<open>Http_Date\<close>: the dates and \<^verbatim>\<open>max-age\<close> of a cookie as
    \<^verbatim>\<open>HttpParser::addHeader\<close> reads them: the cascade over five \<^verbatim>\<open>strptime\<close>
    formats, \<^verbatim>\<open>timegm\<close>, and \<^verbatim>\<open>strtoull\<close> stored in a signed 64-bit field.
    The three C library functions are modelled from their manual pages.
  \<^item> \<open>Cookie\<close>: the \<^verbatim>\<open>Set-Cookie\<close> branch of \<^verbatim>\<open>HttpParser::addHeader\<close>, with a
    reference writer and the round trip through it.
  \<^item> \<open>Http_Parser\<close>: the state of \<^verbatim>\<open>HttpParser\<close>, its callbacks, the folding
    of headers, \<^verbatim>\<open>readResponse\<close> and \<^verbatim>\<open>pumpStream\<close>.  Lemmas: the grouping of
    header pieces, the folded headers, the invariants of the state, what a
    successful read returns, the errors a read can fail with, and that a
    streamed body reaches the response stream complete, in order, with one
    final \<^verbatim>\<open>done\<close>.
  \<^item> \<open>Response_Build\<close>: \<^verbatim>\<open>HttpParser::build\<close>, \<^verbatim>\<open>buildForWebSocket\<close> and
    \<^verbatim>\<open>buildOptions\<close>: the variant built for each class of status, when the
    build succeeds, what it puts in the result.
  \<^item> \<open>Request_Stream\<close>: \<^verbatim>\<open>RequestStreamImpl\<close>, the object behind a streaming
    upload: \<^verbatim>\<open>write\<close>, \<^verbatim>\<open>done\<close>, \<^verbatim>\<open>expectSize\<close> and \<^verbatim>\<open>writeHeadersOnce\<close>, with
    the byte counters as 64-bit words.  Lemmas: what reaches the application
    for an upload of declared size and for a chunked one (which a reference
    decoder of the chunked coding reads back), the refusals of the object, an
    invariant of every reachable state (what is sent begins with the head).
  \<^item> \<open>WebSocket_Pump\<close>: \<^verbatim>\<open>WebSocketPump\<close>.  \<^verbatim>\<open>pump\<close> is a recursion over the
    chunks read from the application.  \<^verbatim>\<open>sendBytes\<close> attaches a continuation to
    the promise \<^verbatim>\<open>upstreamOp\<close>; the promises are explicit, each call recorded
    with the promise it waits for and its state, and \<open>loopStep\<close> is one event
    of KJ's event loop (a continuation runs, a rejection is passed on, a write
    completes or fails), in any order the loop allows.  Lemmas: an invariant
    of the chain kept by every event (\<open>chainInv\<close>); the writes reach the
    application one at a time and in the order of the host's calls; when no
    write fails, the schedule \<open>drain\<close> completes every write.
  \<^item> \<open>Web_Session\<close>: \<^verbatim>\<open>WebSessionImpl\<close>: the constructor, \<^verbatim>\<open>makeHeaders\<close> and
    \<^verbatim>\<open>addCommonHeaders\<close>, the request of every verb (\<open>requestOf\<close>, one
    equation per method), the streaming and WebSocket requests, and what is
    done with the response in \<^verbatim>\<open>sendRequest\<close>, \<^verbatim>\<open>sendOptionsRequest\<close>,
    \<^verbatim>\<open>openWebSocket\<close> and \<^verbatim>\<open>RequestStreamImpl::getResponse\<close>.  Lemmas: the shape
    of a request (request line, final empty line, \<^verbatim>\<open>Content-Length\<close> equal to
    the length of the body), when a verb is refused, that the head of a
    streaming request is always accepted by the request stream, and what the
    host receives from a call.  In \<^verbatim>\<open>sendRequest\<close> the pump of a streamed body
    runs only when the result holds the handle that keeps the parser (a
    content response with a streamed body, \<open>holdsHandle\<close>); otherwise the
    parser is dropped with the continuation and nothing more is written.
  \<^item> \<open>Session_Map\<close>: the session factory \<^verbatim>\<open>UiViewImpl::newSession\<close> with
    \<^verbatim>\<open>formatPermissions\<close> and \<^verbatim>\<open>addressToString\<close>, the 32-bit session counter,
    the \<^verbatim>\<open>SessionContextMap\<close> with the insertion and removal done by the
    constructor and destructor of \<^verbatim>\<open>WebSessionImpl\<close>, and
    \<^verbatim>\<open>SandstormHttpBridgeImpl::getSessionContext\<close>.  The state also holds the
    web sessions that are alive.  Runs of \<^verbatim>\<open>newSession\<close> and drops are an
    inductive relation \<open>reachableIn\<close> that counts the identifiers handed out.
    Lemmas: below \<open>2 ^ 32\<close> identifiers the map holds exactly the live sessions
    (invariant \<open>mapInv\<close>, by rule induction); at \<open>2 ^ 32\<close> the counter wraps,
    which is reachable, and then the map and the sessions disagree; what
    \<^verbatim>\<open>newSession\<close> makes for each session type.
  \<^item> \<open>Mail_Sink\<close>: \<^verbatim>\<open>EmailSessionImpl\<close>: \<^verbatim>\<open>genRandomString\<close> with its 32-bit shift
    register (a \<^theory_text>\<open>function\<close> with a termination proof for the inner loop), the
    lines of the mail file, and \<^verbatim>\<open>send\<close> on a map from paths to contents, its
    three system calls (open, write, rename) as steps that can each fail.
    Lemmas: the name is the base-64 reading of the 128 random bits (so names
    are unique and hold no slash), the header block equals a declarative
    list of headers, the structure of the file, and that the file in
    \<^verbatim>\<open>/var/mail/new\<close> is whole or absent whatever fails.
  \<^item> \<open>Supervisor\<close>: \<^verbatim>\<open>LegacyBridgeMain\<close>: the command line (\<^verbatim>\<open>setPort\<close>,
    \<^verbatim>\<open>addCommandArg\<close>, \<^verbatim>\<open>getMain\<close>), the system calls of the child up to
    \<^verbatim>\<open>execvp\<close>, the diagnostic for the exit status of the application,
    \<^verbatim>\<open>onChildExit\<close>, the loop that waits for the application's port, and the
    phases of the parent as a step function over the events of its event
    loop.  The two loops that may run forever are \<^theory_text>\<open>partial_function (option)\<close>.
    Lemmas: the loops return exactly when the awaited event happens, and then
    at its first occurrence; the arguments accepted; the calls the child
    makes; an invariant of the phases by rule induction (a serving parent
    holds a reachable state of the session factory, an exit carries a
    diagnostic).
  \<^item> \<open>Spec2Isabelle\<close> (this theory): properties that need several
    components at once: the session identifier sent in a request leads
    \<^verbatim>\<open>getSessionContext\<close> back to the session's context; an upload of declared
    size from the session's request to the bytes on the wire; the scenarios of
    a plain \<^verbatim>\<open>GET\<close> through the status table, the parser and \<^verbatim>\<open>build\<close>.

  \<^bold>\<open>Conventions.\<close>  A class is a \<^theory_text>\<open>record\<close> of its fields and each method a
  function from the record (and the arguments) to a result and the record
  after the call; a method that throws returns \<open>Inl\<close> of the error, and a
  method that changes its object before it throws returns the changed object
  together with the error.  Strings and byte arrays are \<^typ>\<open>string\<close>.  Status
  codes, ordinals and sizes that cannot overflow in the code are \<^typ>\<open>nat\<close>;
  counters whose wrap-around is reachable are words of their width.

  \<^bold>\<open>The library and the connection.\<close>  The \<^verbatim>\<open>http_parser\<close> library is not part
  of the source.  It is a parameter of the model: a function from its own
  state and a buffer to the callbacks it makes, in order (a \<open>ParserEvent\<close>
  list), the number of bytes it consumed and its next state.  Everything
  proved about the parser holds for every such function.  A connection to
  the application is the list of the chunks its reads will return; the end
  of the list, or an empty chunk, is the end of the stream.  The read loops
  are structural recursions over that list, so they terminate and no fuel is
  needed; a promise chain is run to its end, continuations in the order KJ
  runs them.  What a component sends to a stream it does not own (the
  response stream of the host, the connection to the application, the host's
  WebSocket stream) is recorded in its state as the list of calls made.

  \<^bold>\<open>Fuel and loops without end.\<close>  The only definition with fuel is the
  reference decoder \<open>dechunk\<close> of the chunked coding in \<open>Request_Stream\<close>,
  which is a specification and not code; one unit per chunk plus one is
  enough, and the theorem that uses it gives exactly that amount.  The loops
  of the supervisor (\<open>awaitConnect\<close>, \<open>onChildExit\<close>) have no bound: they are
  partial functions whose value \<open>None\<close> is a loop that never ends, and the
  theorems say exactly when they return.  The inner loop of
  \<^verbatim>\<open>genRandomString\<close> is a \<^theory_text>\<open>function\<close> with a termination proof.

  \<^bold>\<open>Parameters from outside the source.\<close>  Besides the parsing library:
  the compiled schema (\<open>Status_Table\<close>, the names of the pronoun enumerants in
  \<open>Web_Session\<close>), the text form of an IPv6 address (\<open>Session_Map\<close>), the
  text of a date and the base-64 coding of an attachment (\<open>Mail_Sink\<close>), the
  16 random bytes of a mail's name, which of the system calls of \<^verbatim>\<open>send\<close>
  fails (the record \<open>Disk\<close>), and in \<open>Supervisor\<close> the operating
  system: the outcome of \<^verbatim>\<open>fork\<close>, of every attempt to connect and of every
  \<^verbatim>\<open>waitpid\<close>, the parsing of the address, the name of a signal and the
  text of an exception.

  \<^bold>\<open>Not modelled.\<close>  \<^verbatim>\<open>RefcountedAsyncIoStream\<close> forwards every call to the stream
  it wraps.  Of the supervisor, the set-up of the RPC system on the inherited
  socket and on the side socket is a sequence of library calls and appears
  only as the phase \<open>Serving\<close>.  Failures of the connection to the
  application (a refused connect of a request, a failed write of a request)
  are outside the model; the order in which the event loop runs what is ready
  is modelled where a property depends on it (the writes of a WebSocket, the
  events of the parent) and is otherwise the order of the program text.
\<close>

section \<open>Fixtures\<close>

text \<open>The callbacks a parsing library makes for the responses of two scenarios.\<close>

definition getEvents :: "ParserEvent list" where
  "getEvents =
     [SetStatusCode 200, OnStatus ''OK'',
      OnHeaderField ''Content-Type'', OnHeaderValue ''text/plain'',
      OnHeaderField ''Content-Length'', OnHeaderValue ''5'',
      OnHeadersComplete, OnBody ''hello'', OnMessageComplete]"

definition movedEvents :: "ParserEvent list" where
  "movedEvents =
     [SetStatusCode 301, OnStatus ''Moved'', OnHeaderField ''Location'', OnHeaderValue ''/x'',
      OnHeadersComplete, OnMessageComplete]"

section \<open>Properties that span components\<close>

lemma fixed_codes_never_unsupported:
  assumes "makeStatusCodes sch = Inr m" and "fixedInfo c = Some i"
  shows "statusInfoFor m c txt = Inr i"
  using assms by (simp add: statusInfoFor_def makeStatusCodes_Inr_apply tableOf_def)

text \<open>
  C17.  The identifier in a request leads back to the session.  For a session
  that is alive in a reachable state of the factory (fewer than \<open>2 ^ 32\<close>
  identifiers handed out), every request head built for it carries the line
  \<^verbatim>\<open>X-Sandstorm-Session-Id\<close> with an identifier under which
  \<^verbatim>\<open>getSessionContext\<close> returns the context given when that session was
  created.
\<close>

theorem session_header_finds_context:
  assumes "reachableIn f cfg n v" and "n < 2 ^ 32" and "(s, c) \<in> set (liveSessions v)"
    and "makeHeaders en s m path ctx extra = Inr h"
  shows "hasLine h (''X-Sandstorm-Session-Id: '' @ sessionId s)
       \<and> getSessionContext (sessionContextMap v) (sessionId s) = Inr c"
proof -
  from reachableIn_mapInv [OF assms(1,2)] have d: "distinct (ids (liveSessions v))"
    and mp: "sessionContextMap v = mapOf (liveSessions v)"
    by (simp_all add: mapInv_def)
  from mapOf_Some_iff [OF d, of "sessionId s" c] assms(3) mp
  have "getSessionContext (sessionContextMap v) (sessionId s) = Inr c"
    by (auto simp: getSessionContext_def)
  with makeHeaders_hasLine(4) [OF assms(4)] show ?thesis by simp
qed

theorem session_header_finds_context_witness:
  "\<exists>h. makeHeaders [] (annSession \<lparr>apiPath = [], viewPermissions = []\<rparr> ''0'') ''GET'' ''/'' plainContext [] = Inr h
     \<and> hasLine h ''X-Sandstorm-Session-Id: 0''
     \<and> getSessionContext
          (sessionContextMap (step bytesText (NewSession (webParams (7::nat)))
             (newUiView \<lparr>apiPath = [], viewPermissions = []\<rparr>))) ''0'' = Inr 7"
proof -
  let ?cfg = "\<lparr>apiPath = [], viewPermissions = []\<rparr>"
  let ?v = "step bytesText (NewSession (webParams (7::nat))) (newUiView ?cfg)"
  from reachableIn.after [OF reachableIn.init, of bytesText ?cfg "NewSession (webParams (7::nat))"]
  have r: "reachableIn bytesText ?cfg 1 ?v" by (simp del: step.simps)
  have l: "(annSession ?cfg ''0'', 7) \<in> set (liveSessions ?v)"
    by (simp add: first_session oneSession_def del: step.simps)
  have "isOk (makeHeaders [] (annSession ?cfg ''0'') ''GET'' ''/'' plainContext [])"
    by (simp add: makeHeaders_ok_iff annSession_def urlLike_def startsWith_def char_eval)
  then obtain h where h: "makeHeaders [] (annSession ?cfg ''0'') ''GET'' ''/'' plainContext [] = Inr h"
    by (auto simp: isOk_iff)
  from session_header_finds_context [OF r _ l h] h show ?thesis
    by (auto simp: annSession_def)
qed

text \<open>
  C28.  An upload of declared size, end to end.  On the request stream that
  \<^verbatim>\<open>postStreaming\<close> or \<^verbatim>\<open>putStreaming\<close> returns, \<^verbatim>\<open>expectSize(n)\<close> followed by
  writes of \<open>n\<close> bytes in all and \<^verbatim>\<open>done\<close> never fails, and the application
  receives the head the session built, with \<^verbatim>\<open>Content-Length: n\<close> before its
  empty line, followed by exactly the bytes written.
\<close>

theorem declared_upload_end_to_end:
  assumes "makeHeaders en s m path ctx
             [''Content-Type: '' @ mime,
              (case enc of Some e \<Rightarrow> ''Content-Encoding: '' @ e | None \<Rightarrow> [])] = Inr h"
    and "length (concat ds) < 2 ^ 64"
  shows "streamingRequest en s m path mime enc ctx = Inr (newRequestStream h)
       \<and> noErrors (snd (calls (ExpectSize (of_nat (length (concat ds))) # map Write ds @ [Done])
                           (newRequestStream h)))
       \<and> wire (fst (calls (ExpectSize (of_nat (length (concat ds))) # map Write ds @ [Done])
                         (newRequestStream h)))
           = take (length h - 2) h @ ''Content-Length: '' @ strNat (length (concat ds))
               @ CRLF @ CRLF @ concat ds"
  unfolding identity_upload [OF makeHeaders_terminated [OF assms(1)] assms(2)]
  using assms(1) by (simp add: wire_def contentLengthHeader_def streamingRequest_def)

theorem declared_upload_end_to_end_witness:
  "wire (fst (calls (ExpectSize 10 # map Write [''0123'', ''456789''] @ [Done])
            (newRequestStream (anonymousHead ''POST /up HTTP/1.1'' [''Content-Type: text/plain'']))))
     = take (length (anonymousHead ''POST /up HTTP/1.1'' [''Content-Type: text/plain'']) - 2)
         (anonymousHead ''POST /up HTTP/1.1'' [''Content-Type: text/plain''])
       @ ''Content-Length: 10'' @ CRLF @ CRLF @ ''0123456789''"
proof -
  have h: "makeHeaders [] anonymous ''POST'' ''/up'' plainContext
      [''Content-Type: '' @ ''text/plain'',
       (case None of Some e \<Rightarrow> ''Content-Encoding: '' @ e | None \<Rightarrow> [])]
      = Inr (anonymousHead ''POST /up HTTP/1.1'' [''Content-Type: text/plain''])"
    by (simp add: makeHeaders_anonymous)
  have n: "of_nat (length (concat [''0123'', ''456789''])) = (10 :: 64 word)"
    "length (concat [''0123'', ''456789'']) = 10"
    by simp_all
  have l: "length (concat [''0123'', ''456789'']) < 2 ^ 64" by simp
  from declared_upload_end_to_end [OF h l]
  show ?thesis
    unfolding n by simp
qed

text \<open>
  The scenarios of a plain \<^verbatim>\<open>GET\<close>.  With the status table of a schema
  that annotates \<^verbatim>\<open>ok\<close> with 200, a response \<^verbatim>\<open>200 OK\<close> of type \<^verbatim>\<open>text/plain\<close>
  with the body \<^verbatim>\<open>hello\<close>, complete in one read, gives a content response
  with that type and the body inline, and nothing on the response stream; a
  response \<^verbatim>\<open>301\<close> with \<^verbatim>\<open>Location: /x\<close> gives a permanent redirect to \<^verbatim>\<open>/x\<close>
  that switches to \<^verbatim>\<open>GET\<close>.
\<close>

theorem get_scenarios:
  assumes "makeStatusCodes exampleSchema = Inr codes"
  shows "sendRequest codes scriptedLib [getEvents] [''HTTP/1.1 200 OK...hello'']
           = \<lparr>exchangeResult = Inr \<lparr>setCookies = [], responseVariant = ContentResponse
                 \<lparr>contentStatusCode = 0, contentEncoding = [], contentLanguage = [],
                  contentMimeType = ''text/plain'', contentETag = None, contentDisposition = Normal,
                  contentBody = Bytes ''hello''\<rparr>\<rparr>,
              exchangeStream = [], exchangeLogged = None\<rparr>
       \<and> sendRequest codes scriptedLib [movedEvents] [''HTTP/1.1 301 Moved...'']
           = \<lparr>exchangeResult = Inr \<lparr>setCookies = [], responseVariant = RedirectResponse True True ''/x''\<rparr>,
              exchangeStream = [], exchangeLogged = None\<rparr>"
proof -
  have "codes 200 = tableOf exampleSchema 200" "codes 301 = tableOf exampleSchema 301"
    by (rule makeStatusCodes_Inr_apply [OF assms])+
  with tableOf_exampleSchema(1)
  have c: "codes 200 = Some (ContentInfo 0)" "codes 301 = Some (redirectInfo True True)"
    by (simp_all add: tableOf_def [of exampleSchema 301] fixedInfo_def redirectInfo_def)
  obtain p where g: "runEvents getEvents (newHttpParser ([] :: ParserEvent list list)) = (p, None)"
    and p: "\<not> upgrade p" "messageComplete p" "headersComplete p" "\<not> isStreaming p"
      "status_code p = 200" "body p = ''hello''" "cookies p = []"
      "findHeader p ''content-type'' = Some ''text/plain''" "findHeader p ''etag'' = None"
      "findHeader p ''content-encoding'' = None" "findHeader p ''content-language'' = None"
      "findHeader p ''content-disposition'' = None"
    by (simp add: getEvents_def parser_eval)
  obtain q where m: "runEvents movedEvents (newHttpParser ([] :: ParserEvent list list)) = (q, None)"
    and q: "\<not> upgrade q" "messageComplete q" "headersComplete q" "\<not> isStreaming q"
      "status_code q = 301" "cookies q = []" "findHeader q ''location'' = Some ''/x''"
    by (simp add: movedEvents_def parser_eval)
  from g p have rp: "received scriptedLib [getEvents] [''HTTP/1.1 200 OK...hello''] = Inr (p, [])"
    by (simp add: received_def readResponseStep_def http_parser_execute_def scriptedLib_def)
  from m q have rq: "received scriptedLib [movedEvents] [''HTTP/1.1 301 Moved...''] = Inr (q, [])"
    by (simp add: received_def readResponseStep_def http_parser_execute_def scriptedLib_def)
  from p c have bp: "build codes p = Inr \<lparr>setCookies = [], responseVariant = ContentResponse
                 \<lparr>contentStatusCode = 0, contentEncoding = [], contentLanguage = [],
                  contentMimeType = ''text/plain'', contentETag = None, contentDisposition = Normal,
                  contentBody = Bytes ''hello''\<rparr>\<rparr>"
    by (simp add: build_def statusInfoFor_def buildVariant_def buildContent_def optETag_def)
  from q c have bq: "build codes q
      = Inr \<lparr>setCookies = [], responseVariant = RedirectResponse True True ''/x''\<rparr>"
    by (simp add: build_def statusInfoFor_def buildVariant_def redirectInfo_def)
  from sendRequest_buffered [OF rp p(4), of codes] sendRequest_buffered [OF rq q(4), of codes] bp bq
  show ?thesis by simp
qed

theorem get_scenarios_witness:
  "\<exists>codes. makeStatusCodes exampleSchema = Inr codes
     \<and> exchangeResult (sendRequest codes scriptedLib [movedEvents] [''HTTP/1.1 301 Moved...''])
         = Inr \<lparr>setCookies = [], responseVariant = RedirectResponse True True ''/x''\<rparr>"
proof -
  from makeStatusCodes_exampleSchema obtain codes where c: "makeStatusCodes exampleSchema = Inr codes"
    by blast
  from get_scenarios [OF c] c show ?thesis by auto
qed


end
